theory Spec2Isabelle
  imports Main
begin

section \<open>ProcessarXML.js: splitting a listings feed into batches\<close>

text \<open>
  The script reads an XML feed, extracts every \<open><Listing>\<close> block with a regular
  expression, cuts the blocks into groups of \<open>BATCH_SIZE\<close>, writes each group to a file
  wrapped in the feed's header and footer, and posts it after the operator confirmed.

  JavaScript strings are modelled as \<^typ>\<open>string\<close>: a list of code units, here the
  code units U+0000 to U+00FF. Every character the script inspects (tag names, the
  newline, the answers of the operator, digits) is in that range. Numbers are \<^typ>\<open>int\<close>
  and \<^typ>\<open>nat\<close>: the script only counts records and adds the batch size to an offset.
\<close>

subsection \<open>Characters and strings of the JavaScript library\<close>

definition upper_letters :: string where
  "upper_letters = ''ABCDEFGHIJKLMNOPQRSTUVWXYZ''"

definition lower_letters :: string where
  "lower_letters = ''abcdefghijklmnopqrstuvwxyz''"

definition decimal_digits :: string where
  "decimal_digits = ''0123456789''"

text \<open>U+00C0 to U+00DE without the multiplication sign U+00D7, and U+00E0 to U+00FE
  without the division sign U+00F7: the capital and small letters of Latin-1.\<close>

definition latin1_upper :: string where
  "latin1_upper =
     [CHR 0xC0, CHR 0xC1, CHR 0xC2, CHR 0xC3, CHR 0xC4, CHR 0xC5, CHR 0xC6, CHR 0xC7,
      CHR 0xC8, CHR 0xC9, CHR 0xCA, CHR 0xCB, CHR 0xCC, CHR 0xCD, CHR 0xCE, CHR 0xCF,
      CHR 0xD0, CHR 0xD1, CHR 0xD2, CHR 0xD3, CHR 0xD4, CHR 0xD5, CHR 0xD6,
      CHR 0xD8, CHR 0xD9, CHR 0xDA, CHR 0xDB, CHR 0xDC, CHR 0xDD, CHR 0xDE]"

definition latin1_lower :: string where
  "latin1_lower =
     [CHR 0xE0, CHR 0xE1, CHR 0xE2, CHR 0xE3, CHR 0xE4, CHR 0xE5, CHR 0xE6, CHR 0xE7,
      CHR 0xE8, CHR 0xE9, CHR 0xEA, CHR 0xEB, CHR 0xEC, CHR 0xED, CHR 0xEE, CHR 0xEF,
      CHR 0xF0, CHR 0xF1, CHR 0xF2, CHR 0xF3, CHR 0xF4, CHR 0xF5, CHR 0xF6,
      CHR 0xF8, CHR 0xF9, CHR 0xFA, CHR 0xFB, CHR 0xFC, CHR 0xFD, CHR 0xFE]"

text \<open>White space of \<open>String.prototype.trim\<close> and of \<open>parseInt\<close>: TAB, LF, VT, FF, CR,
  SP and NBSP.\<close>

definition js_white :: "char \<Rightarrow> bool" where
  "js_white c = (c \<in> set [CHR 0x09, CHR 0x0A, CHR 0x0B, CHR 0x0C, CHR 0x0D, CHR 0x20, CHR 0xA0])"

definition trim :: "string \<Rightarrow> string" where
  "trim s = rev (dropWhile js_white (rev (dropWhile js_white s)))"

text \<open>\<open>toLowerCase\<close> on U+0000 to U+00FF: a capital letter becomes its small letter,
  every other code unit stays.\<close>

definition lower_char :: "char \<Rightarrow> char" where
  "lower_char c =
     (case map_of (zip (upper_letters @ latin1_upper) (lower_letters @ latin1_lower)) c of
        None \<Rightarrow> c
      | Some d \<Rightarrow> d)"

definition toLowerCase :: "string \<Rightarrow> string" where
  "toLowerCase s = map lower_char s"

text \<open>Case folding of a regular expression with the flag \<open>i\<close> (and without \<open>u\<close>):
  a code unit from 128 on never folds onto an ASCII letter, so only A to Z fold.\<close>

definition fold_char :: "char \<Rightarrow> char" where
  "fold_char c = (case map_of (zip upper_letters lower_letters) c of None \<Rightarrow> c | Some d \<Rightarrow> d)"

text \<open>The class \<open>\w\<close>, which decides the word boundary \<open>\b\<close>.\<close>

definition word_char :: "char \<Rightarrow> bool" where
  "word_char c = (c \<in> set (upper_letters @ lower_letters @ decimal_digits @ ''_''))"

definition newline :: char where
  "newline = CHR 0x0A"

text \<open>\<open>Array.prototype.slice\<close> and \<open>String.prototype.slice\<close>: a negative bound counts from
  the end, every bound is clamped to the length, an empty range gives the empty list.\<close>

definition js_slice :: "'a list \<Rightarrow> int \<Rightarrow> int \<Rightarrow> 'a list" where
  "js_slice xs start fin =
     (let len = int (length xs);
          k = (if start < 0 then max (len + start) 0 else min start len);
          final = (if fin < 0 then max (len + fin) 0 else min fin len)
      in take (nat (final - k)) (drop (nat k) xs))"

definition js_slice_from :: "'a list \<Rightarrow> int \<Rightarrow> 'a list" where
  "js_slice_from xs start = js_slice xs start (int (length xs))"

text \<open>\<open>String.prototype.substring\<close> with bounds that are not negative: each bound is
  clamped to the length, and the smaller one is the start.\<close>

definition substring :: "string \<Rightarrow> nat \<Rightarrow> nat \<Rightarrow> string" where
  "substring s a b =
     (let a' = min a (length s); b' = min b (length s)
      in take (max a' b' - min a' b') (drop (min a' b') s))"

text \<open>\<open>Array.prototype.join\<close> on an array of strings.\<close>

fun join :: "string \<Rightarrow> string list \<Rightarrow> string" where
  "join sep [] = []"
| "join sep [x] = x"
| "join sep (x # y # ys) = x @ sep @ join sep (y # ys)"

text \<open>\<open>String.prototype.indexOf\<close>: the first position where the pattern starts, or -1.\<close>

fun indexOf_nat :: "string \<Rightarrow> string \<Rightarrow> nat option" where
  "indexOf_nat [] pat = (if pat = [] then Some 0 else None)"
| "indexOf_nat (c # cs) pat =
     (if take (length pat) (c # cs) = pat then Some 0
      else map_option Suc (indexOf_nat cs pat))"

definition indexOf :: "string \<Rightarrow> string \<Rightarrow> int" where
  "indexOf s pat = (case indexOf_nat s pat of None \<Rightarrow> -1 | Some k \<Rightarrow> int k)"

text \<open>\<open>s.indexOf(pat, from)\<close> with \<open>0 \<le> from\<close>.\<close>

definition indexOf_from :: "string \<Rightarrow> string \<Rightarrow> nat \<Rightarrow> int" where
  "indexOf_from s pat from =
     (case indexOf_nat (drop from s) pat of None \<Rightarrow> -1 | Some k \<Rightarrow> int (from + k))"

text \<open>\<open>String(n)\<close> for a non-negative integer, and \<open>padStart\<close>.\<close>

text \<open>The digit of a number below ten.\<close>

definition digit_char :: "nat \<Rightarrow> char" where
  "digit_char d = decimal_digits ! d"

fun String_of_nat :: "nat \<Rightarrow> string" where
  "String_of_nat n =
     (if n < 10 then [digit_char n] else String_of_nat (n div 10) @ [digit_char (n mod 10)])"

declare String_of_nat.simps [simp del]

definition padStart :: "nat \<Rightarrow> char \<Rightarrow> string \<Rightarrow> string" where
  "padStart width c s = replicate (width - length s) c @ s"

subsection \<open>parseInt and the configuration constants\<close>

text \<open>
  \<open>parseInt(string, radix)\<close>, with \<open>None\<close> for NaN. The argument is converted to a
  string first (\<open>undefined\<close> becomes the text "undefined"), white space and a sign are
  removed, then a radix other than 0 that is below 2 or above 36 gives NaN at once.
  Otherwise the longest prefix of digits of the radix is read (after an optional
  \<open>0x\<close> when the radix is 0 or 16). The result here is the exact integer; JavaScript
  returns the nearest double, which is the same number below \<open>2^53\<close> only.
\<close>

definition digit_value :: "char \<Rightarrow> nat option" where
  "digit_value c = map_of (zip (decimal_digits @ lower_letters) [0..<36]) (fold_char c)"

definition is_digit_of :: "nat \<Rightarrow> char \<Rightarrow> bool" where
  "is_digit_of r c = (case digit_value c of None \<Rightarrow> False | Some d \<Rightarrow> d < r)"

definition number_of_digits :: "nat \<Rightarrow> string \<Rightarrow> nat" where
  "number_of_digits r z = foldl (\<lambda>acc c. acc * r + (case digit_value c of None \<Rightarrow> 0 | Some d \<Rightarrow> d)) 0 z"

definition ToString :: "string option \<Rightarrow> string" where
  "ToString v = (case v of None \<Rightarrow> ''undefined'' | Some s \<Rightarrow> s)"

definition hex_prefix :: "string \<Rightarrow> bool" where
  "hex_prefix s = (take 2 s = ''0x'' \<or> take 2 s = ''0X'')"

definition parseInt :: "string option \<Rightarrow> int \<Rightarrow> int option" where
  "parseInt v radix =
     (let s = dropWhile js_white (ToString v);
          sign = (if take 1 s = ''-'' then -1 else 1 :: int);
          s1 = (if take 1 s = ''-'' \<or> take 1 s = ''+'' then drop 1 s else s)
      in if radix \<noteq> 0 \<and> (radix < 2 \<or> 36 < radix) then None
         else
           (let strip = ((radix = 0 \<or> radix = 16) \<and> hex_prefix s1);
                r = (if radix = 0 then (if strip then 16 else 10) else nat radix);
                s2 = (if strip then drop 2 s1 else s1);
                z = takeWhile (is_digit_of r) s2
            in if z = [] then None else Some (sign * int (number_of_digits r z))))"

type_synonym process_env = "string \<rightharpoonup> string"

text \<open>Line 24: \<open>parseInt(process.env.BATCH_SIZE, 100) || 130\<close>. NaN and 0 are falsy.\<close>

definition BATCH_SIZE_init :: "process_env \<Rightarrow> int" where
  "BATCH_SIZE_init env =
     (case parseInt (env ''BATCH_SIZE'') 100 of
        None \<Rightarrow> 130
      | Some n \<Rightarrow> if n = 0 then 130 else n)"

text \<open>Line 27: \<open>process.env.PROCESSING_BATCH_SIZE ? parseInt(..., 10) : undefined\<close>.
  The outer \<open>None\<close> is \<open>undefined\<close>, the inner one NaN. The empty string is falsy.\<close>

definition PROCESSING_BATCH_SIZE_init :: "process_env \<Rightarrow> int option option" where
  "PROCESSING_BATCH_SIZE_init env =
     (case env ''PROCESSING_BATCH_SIZE'' of
        None \<Rightarrow> None
      | Some s \<Rightarrow> if s = [] then None else Some (parseInt (Some s) 10))"

subsection \<open>The regular expressions\<close>

text \<open>
  Each pattern is a function that tries to match at the start of a text and returns the
  length of the match. None of the three patterns looks behind its start, so matching
  at a position of the document is matching at the start of the rest of the document.
\<close>

fun ci_prefix :: "string \<Rightarrow> string \<Rightarrow> bool" where
  "ci_prefix [] s = True"
| "ci_prefix (p # ps) [] = False"
| "ci_prefix (p # ps) (c # cs) = (if fold_char p = fold_char c then ci_prefix ps cs else False)"

fun ci_index :: "string \<Rightarrow> string \<Rightarrow> nat option" where
  "ci_index pat [] = (if pat = [] then Some 0 else None)"
| "ci_index pat (c # cs) =
     (if ci_prefix pat (c # cs) then Some 0 else map_option Suc (ci_index pat cs))"

text \<open>\<open><Name\b[^>]*>\<close>: the name, a word boundary (the next code unit is not a word
  character), then everything up to the first \<open>>\<close>. The greedy \<open>[^>]*\<close> cannot step
  over a \<open>>\<close>, so backtracking finds nothing else.\<close>

definition open_tag :: "string \<Rightarrow> string \<Rightarrow> nat option" where
  "open_tag name s =
     (if ci_prefix (CHR ''<'' # name) s then
        (case drop (Suc (length name)) s of
           [] \<Rightarrow> None
         | c # cs \<Rightarrow>
             if word_char c then None
             else map_option (\<lambda>k. Suc (length name) + k + 1) (indexOf_nat (c # cs) ''>''))
      else None)"

text \<open>\<open><Listing\b[^>]*>[\s\S]*?<\/Listing>\<close>: the opening tag, then the lazy
  \<open>[\s\S]*?\<close> stops at the first closing tag.\<close>

definition listingRegex :: "string \<Rightarrow> nat option" where
  "listingRegex s =
     (case open_tag ''Listing'' s of
        None \<Rightarrow> None
      | Some n \<Rightarrow> map_option (\<lambda>k. n + k + 10) (ci_index ''</Listing>'' (drop n s)))"

definition openListingsRegex :: "string \<Rightarrow> nat option" where
  "openListingsRegex s = open_tag ''Listings'' s"

definition closeListingsRegex :: "string \<Rightarrow> nat option" where
  "closeListingsRegex s = (if ci_prefix ''</Listings>'' s then Some 11 else None)"

text \<open>\<open>String.prototype.search\<close>: the index of the leftmost match, or -1; \<open>match\<close>
  without the flag \<open>g\<close> is null exactly when \<open>search\<close> gives -1.\<close>

fun search_nat :: "(string \<Rightarrow> nat option) \<Rightarrow> string \<Rightarrow> nat option" where
  "search_nat rx [] = (case rx [] of None \<Rightarrow> None | Some n \<Rightarrow> Some 0)"
| "search_nat rx (c # cs) =
     (case rx (c # cs) of None \<Rightarrow> map_option Suc (search_nat rx cs) | Some n \<Rightarrow> Some 0)"

definition search :: "(string \<Rightarrow> nat option) \<Rightarrow> string \<Rightarrow> int" where
  "search rx s = (case search_nat rx s of None \<Rightarrow> -1 | Some k \<Rightarrow> int k)"

text \<open>
  \<open>String.prototype.match\<close> with the flag \<open>g\<close>: the matches from left to right, each
  search starting where the last match ended (one further on after an empty match).
  \<open>exec_all\<close> gives each match with its index, \<open>match_all\<close> the texts alone, which is
  all the script gets.
\<close>

function exec_all :: "(string \<Rightarrow> nat option) \<Rightarrow> nat \<Rightarrow> string \<Rightarrow> (nat \<times> string) list" where
  "exec_all rx pos [] = (case rx [] of None \<Rightarrow> [] | Some n \<Rightarrow> [(pos, [])])"
| "exec_all rx pos (c # cs) =
     (case rx (c # cs) of
        None \<Rightarrow> exec_all rx (Suc pos) cs
      | Some n \<Rightarrow>
          if n = 0 then (pos, []) # exec_all rx (Suc pos) cs
          else (pos, take n (c # cs)) # exec_all rx (pos + n) (drop n (c # cs)))"
  by pat_completeness auto
termination
  by (relation "measure (\<lambda>(rx, pos, s). length s)") auto

definition match_all :: "(string \<Rightarrow> nat option) \<Rightarrow> string \<Rightarrow> string list" where
  "match_all rx s = map snd (exec_all rx 0 s)"

subsection \<open>Header and footer (lines 70 to 92)\<close>

text \<open>The two sections, and whether the fallback was taken. \<open>first\<close> and \<open>final\<close> are
  \<open>listingMatches[0]\<close> and \<open>listingMatches[listingMatches.length - 1]\<close>; the script
  gets here with at least one match.\<close>

record sections =
  fallback :: bool
  headerSection :: string
  footerSection :: string

definition wrapper_sections :: "string \<Rightarrow> string \<Rightarrow> string \<Rightarrow> sections" where
  "wrapper_sections xmlText first final =
     (if search openListingsRegex xmlText \<noteq> -1 \<and> search closeListingsRegex xmlText \<noteq> -1 then
        (let openIdx = search openListingsRegex xmlText;
             openEndIdx = indexOf_from xmlText ''>'' (nat openIdx) + 1;
             closeIdx = search closeListingsRegex xmlText
         in \<lparr>fallback = False,
             headerSection = js_slice xmlText 0 openEndIdx,
             footerSection = js_slice_from xmlText closeIdx\<rparr>)
      else
        (let firstListingIdx = indexOf xmlText first;
             lastListingIdx = indexOf xmlText final + int (length final);
             before = js_slice xmlText 0 firstListingIdx;
             after = js_slice_from xmlText lastListingIdx
         in \<lparr>fallback = True,
             headerSection = before @ ''<Listings>'',
             footerSection = ''</Listings>'' @ after\<rparr>))"

subsection \<open>The world outside the script\<close>

text \<open>
  What the file system, the network and the operator answer is a parameter of the model.
  A call that may throw returns \<open>Threw\<close> with the detail that the script prints.
  The operator is taken to answer every question; the answer to the question about
  batch \<open>k\<close> is \<open>typed w k\<close>, and \<open>posted w k\<close> is how the submission of batch \<open>k\<close>
  ends if it is made (with \<open>res.data\<close> rendered as the script logs it).
\<close>

datatype 'a attempt = Returned 'a | Threw string

datatype js_value = Str string | NotString

record world =
  env :: process_env
  cwd :: string
  local_file :: "string \<Rightarrow> string attempt option"
  axios_get :: "string option \<Rightarrow> js_value attempt"
  dir_exists :: "string \<Rightarrow> bool"
  mkdirSync :: "string \<Rightarrow> unit attempt"
  writeFileSync :: "string \<Rightarrow> string \<Rightarrow> unit attempt"
  typed :: "nat \<Rightarrow> string"
  posted :: "nat \<Rightarrow> string attempt"

text \<open>The module constants of lines 19 to 29.\<close>

record constants =
  XML_URL :: "string option"
  API_URL :: "string option"
  API_KEY :: "string option"
  BATCH_SIZE :: int
  PROCESSING_BATCH_SIZE :: "int option option"
  OUTPUT_DIR :: string

text \<open>\<open>path.join\<close> of an absolute, normalised directory and one plain segment (POSIX).\<close>

definition path_join :: "string \<Rightarrow> string \<Rightarrow> string" where
  "path_join dir seg = (if dir = ''/'' then dir @ seg else dir @ ''/'' @ seg)"

definition load_constants :: "world \<Rightarrow> constants" where
  "load_constants w =
     \<lparr>XML_URL = env w ''XML_URL'',
      API_URL = env w ''API_URL'',
      API_KEY = env w ''API_KEY'',
      BATCH_SIZE = BATCH_SIZE_init (env w),
      PROCESSING_BATCH_SIZE = PROCESSING_BATCH_SIZE_init (env w),
      OUTPUT_DIR = path_join (cwd w) ''lotes''\<rparr>"

record payload =
  xmlData :: string
  batchSize :: "int option option"

text \<open>
  What the script does to the outside, in order. A network call records the value that
  \<open>process.env.NODE_TLS_REJECT_UNAUTHORIZED\<close> has when the call is made. The console
  lines are kept by their arguments, not by their wording.
\<close>

datatype event =
    LogFetching "string option"
  | LogDownloading "string option"
  | AxiosGet "string option" "string option"
  | ErrNoListing
  | LogPreview string
  | LogFound nat
  | WarnFallback
  | Mkdir string
  | CreateInterface
  | WriteFile string string
  | LogSaved nat string nat int int
  | Question nat nat int int "string option"
  | LogSending nat
  | AxiosPost "string option" payload "(string \<times> string) list" "string option"
  | LogSent nat string
  | ErrSend nat string
  | LogSkipped nat
  | CloseInterface
  | LogFinished
  | ErrFatal string

definition tls_setting :: "process_env \<Rightarrow> string option" where
  "tls_setting penv = penv ''NODE_TLS_REJECT_UNAUTHORIZED''"

subsection \<open>askQuestion and fetchXmlText\<close>

text \<open>Line 34: the answer, or the empty string when the answer is falsy (the empty
  string itself), trimmed and in lower case.\<close>

definition askQuestion :: "string \<Rightarrow> string" where
  "askQuestion ans = toLowerCase (trim (if ans = [] then [] else ans))"

definition fetchXmlText :: "world \<Rightarrow> process_env \<Rightarrow> string option \<Rightarrow> event list \<times> js_value attempt" where
  "fetchXmlText w penv urlOrPath =
     (case (case urlOrPath of None \<Rightarrow> None | Some p \<Rightarrow> local_file w p) of
        Some (Returned text) \<Rightarrow> ([], Returned (Str text))
      | Some (Threw e) \<Rightarrow> ([], Threw e)
      | None \<Rightarrow>
          ([LogDownloading urlOrPath, AxiosGet urlOrPath (tls_setting penv)],
           axios_get w urlOrPath))"

subsection \<open>One turn of the batch loop (lines 104 to 138)\<close>

record iteration =
  offset :: int
  loteIndex :: nat
  batchMatches :: "string list"
  batchCount :: nat
  startIdx :: int
  endIdx :: int
  batchXml :: string
  fileName :: string
  answer :: string
  effects :: "event list"
  thrown :: "string option"

definition make_batchXml :: "string \<Rightarrow> string list \<Rightarrow> string \<Rightarrow> string" where
  "make_batchXml header ms footer = header @ [newline] @ join [newline] ms @ [newline] @ footer"

definition make_fileName :: "string \<Rightarrow> nat \<Rightarrow> string" where
  "make_fileName dir k =
     path_join dir (''lote_'' @ padStart 3 (CHR ''0'') (String_of_nat k) @ ''.xml'')"

definition affirmative :: "string \<Rightarrow> bool" where
  "affirmative a = (a = ''s'' \<or> a = ''sim'')"

definition make_headers :: "constants \<Rightarrow> (string \<times> string) list" where
  "make_headers c =
     (''Content-Type'', ''application/json'') #
     (case API_KEY c of
        None \<Rightarrow> []
      | Some key \<Rightarrow> if key = [] then [] else [(''Authorization'', ''Bearer '' @ key)])"

definition send_batch :: "world \<Rightarrow> constants \<Rightarrow> process_env \<Rightarrow> nat \<Rightarrow> string \<Rightarrow> event list" where
  "send_batch w c penv k xml =
     [LogSending k,
      AxiosPost (API_URL c) \<lparr>xmlData = xml, batchSize = PROCESSING_BATCH_SIZE c\<rparr>
        (make_headers c) (tls_setting penv)] @
     (case posted w k of
        Returned shown \<Rightarrow> [LogSent k shown]
      | Threw detail \<Rightarrow> [ErrSend k detail])"

definition iteration_body ::
  "world \<Rightarrow> constants \<Rightarrow> process_env \<Rightarrow> string list \<Rightarrow> sections \<Rightarrow> int \<Rightarrow> nat \<Rightarrow> iteration" where
  "iteration_body w c penv listingMatches sec i k =
     (let ms = js_slice listingMatches i (i + BATCH_SIZE c);
          n = length ms;
          s = i + 1;
          e = i + int n;
          xml = make_batchXml (headerSection sec) ms (footerSection sec);
          name = make_fileName (OUTPUT_DIR c) k;
          a = askQuestion (typed w k)
      in case writeFileSync w name xml of
           Threw err \<Rightarrow>
             \<lparr>offset = i, loteIndex = k, batchMatches = ms, batchCount = n, startIdx = s,
              endIdx = e, batchXml = xml, fileName = name, answer = [],
              effects = [WriteFile name xml], thrown = Some err\<rparr>
         | Returned u \<Rightarrow>
             \<lparr>offset = i, loteIndex = k, batchMatches = ms, batchCount = n, startIdx = s,
              endIdx = e, batchXml = xml, fileName = name, answer = a,
              effects =
                [WriteFile name xml, LogSaved k name n s e, Question k n s e (API_URL c)] @
                (if affirmative a then send_batch w c penv k xml else [LogSkipped k]),
              thrown = None\<rparr>)"

subsection \<open>The batch loop (lines 103 to 139)\<close>

text \<open>
  The loop starts at \<open>i = 0\<close>, runs while \<open>i < total\<close> and adds \<open>BATCH_SIZE\<close> to \<open>i\<close>
  after each turn, with \<open>loteIndex\<close> counted beside it.
  The result is the list of turns and the exception that ended the loop, if one did.
  Nothing in the loop makes sure that \<open>i\<close> grows, so the loop is a partial function:
  \<open>None\<close> is a loop that runs forever.
\<close>

partial_function (option) batch_loop ::
  "world \<Rightarrow> constants \<Rightarrow> process_env \<Rightarrow> string list \<Rightarrow> sections \<Rightarrow> int \<Rightarrow> nat
     \<Rightarrow> (iteration list \<times> string option) option" where
  "batch_loop w c penv listingMatches sec i k =
     (if i < int (length listingMatches) then
        (let it = iteration_body w c penv listingMatches sec i k
         in case thrown it of
              Some err \<Rightarrow> Some ([it], Some err)
            | None \<Rightarrow>
                Option.bind (batch_loop w c penv listingMatches sec (i + BATCH_SIZE c) (Suc k))
                  (\<lambda>(its, t). Some (it # its, t)))
      else Some ([], None))"

declare batch_loop.simps [code]

subsection \<open>main (lines 49 to 147) and the script\<close>

definition invalid_xml :: string where
  "invalid_xml = ''XML vazio ou inv'' @ [CHR 0xE1] @ ''lido.''"

definition prepare_dir :: "world \<Rightarrow> constants \<Rightarrow> event list \<times> string option" where
  "prepare_dir w c =
     (if dir_exists w (OUTPUT_DIR c) then ([], None)
      else (case mkdirSync w (OUTPUT_DIR c) of
              Returned u \<Rightarrow> ([Mkdir (OUTPUT_DIR c)], None)
            | Threw e \<Rightarrow> ([Mkdir (OUTPUT_DIR c)], Some e)))"

text \<open>Lines 67 to 142, reached with at least one match: \<open>first\<close> is \<open>listingMatches[0]\<close>
  and \<open>others\<close> the matches after it.\<close>

definition run_batches ::
  "world \<Rightarrow> constants \<Rightarrow> process_env \<Rightarrow> string \<Rightarrow> string \<Rightarrow> string list \<Rightarrow> event list option" where
  "run_batches w c penv xmlText first others =
     (let listingMatches = first # others;
          sec = wrapper_sections xmlText first (last listingMatches);
          warn = (if fallback sec then [WarnFallback] else []);
          found = [LogFound (length listingMatches)]
      in case prepare_dir w c of
           (evs, Some e) \<Rightarrow> Some (found @ warn @ evs @ [ErrFatal e])
         | (evs, None) \<Rightarrow>
             Option.bind (batch_loop w c penv listingMatches sec 0 1)
               (\<lambda>(its, t).
                  Some (found @ warn @ evs @ [CreateInterface] @ concat (map effects its) @
                        (case t of
                           Some e \<Rightarrow> [ErrFatal e]
                         | None \<Rightarrow> [CloseInterface, LogFinished]))))"

definition main :: "world \<Rightarrow> constants \<Rightarrow> process_env \<Rightarrow> event list option" where
  "main w c penv =
     (case fetchXmlText w penv (XML_URL c) of
        (evs, Threw e) \<Rightarrow> Some (LogFetching (XML_URL c) # evs @ [ErrFatal e])
      | (evs, Returned NotString) \<Rightarrow> Some (LogFetching (XML_URL c) # evs @ [ErrFatal invalid_xml])
      | (evs, Returned (Str xmlText)) \<Rightarrow>
          if xmlText = [] then Some (LogFetching (XML_URL c) # evs @ [ErrFatal invalid_xml])
          else
            (case match_all listingRegex xmlText of
               [] \<Rightarrow>
                 Some (LogFetching (XML_URL c) # evs @
                       [ErrNoListing, LogPreview (substring xmlText 0 500)])
             | first # others \<Rightarrow>
                 map_option (\<lambda>rest. LogFetching (XML_URL c) # evs @ rest)
                   (run_batches w c penv xmlText first others)))"

text \<open>The script: the constants are read from the environment, line 30 sets
  \<open>NODE_TLS_REJECT_UNAUTHORIZED\<close>, then \<open>main\<close> runs.\<close>

definition script :: "world \<Rightarrow> event list option" where
  "script w =
     (let c = load_constants w;
          penv = (env w)(''NODE_TLS_REJECT_UNAUTHORIZED'' \<mapsto> ''0'')
      in main w c penv)"

subsection \<open>Reading the trace\<close>

fun is_post :: "event \<Rightarrow> bool" where
  "is_post (AxiosPost url body headers tls) = True"
| "is_post e = False"

fun is_question :: "event \<Rightarrow> bool" where
  "is_question (Question k n s e url) = True"
| "is_question e = False"

fun is_write :: "event \<Rightarrow> bool" where
  "is_write (WriteFile name text) = True"
| "is_write e = False"

fun is_fatal :: "event \<Rightarrow> bool" where
  "is_fatal (ErrFatal e) = True"
| "is_fatal e = False"

text \<open>The TLS setting that a network call was made under; \<open>None\<close> for every other event.\<close>

fun tls_of :: "event \<Rightarrow> string option option" where
  "tls_of (AxiosGet url tls) = Some tls"
| "tls_of (AxiosPost url body headers tls) = Some tls"
| "tls_of e = None"

subsection \<open>Reading a batch back\<close>

text \<open>
  The script never reads a batch back. These two functions are what the specification
  means by stripping the wrapper and splitting on the separator:
  \<open>String.prototype.split\<close> with a separator of one code unit, and the removal of a
  prefix and a suffix of known length.
\<close>

fun split_on :: "char \<Rightarrow> string \<Rightarrow> string list" where
  "split_on sep [] = [[]]"
| "split_on sep (x # xs) =
     (if x = sep then [] # split_on sep xs
      else (case split_on sep xs of
              [] \<Rightarrow> [[x]]
            | r # rs \<Rightarrow> (x # r) # rs))"

definition strip_wrapper :: "string \<Rightarrow> string \<Rightarrow> string \<Rightarrow> string" where
  "strip_wrapper pre suf text = take (length text - length pre - length suf) (drop (length pre) text)"

subsection \<open>A small feed and a small world\<close>

text \<open>The feed of the specification's scenario, with three records, read from a local
  file; the operator accepts the first batch and declines the others; the destination
  cannot be reached.\<close>

definition demo_xml :: string where
  "demo_xml =
     ''<Listings ver=1><Listing>A</Listing><Listing>B</Listing><Listing>C</Listing></Listings>''"

definition demo_world :: world where
  "demo_world =
     \<lparr>env = [''XML_URL'' \<mapsto> ''feed.xml'', ''API_URL'' \<mapsto> ''https://api.example/import''],
      cwd = ''/work'',
      local_file = (\<lambda>p. if p = ''feed.xml'' then Some (Returned demo_xml) else None),
      axios_get = (\<lambda>u. Threw ''ENOTFOUND''),
      dir_exists = (\<lambda>d. False),
      mkdirSync = (\<lambda>d. Returned ()),
      writeFileSync = (\<lambda>name text. Returned ()),
      typed = (\<lambda>k. if k = 1 then '' SIM '' else ''n''),
      posted = (\<lambda>k. Threw ''ECONNREFUSED'')\<rparr>"

text \<open>The constants of that world, but with batches of two records.\<close>

definition demo_constants :: constants where
  "demo_constants = (load_constants demo_world)\<lparr>BATCH_SIZE := 2\<rparr>"

definition demo_penv :: process_env where
  "demo_penv = (env demo_world)(''NODE_TLS_REJECT_UNAUTHORIZED'' \<mapsto> ''0'')"

definition demo_matches :: "string list" where
  "demo_matches = match_all listingRegex demo_xml"

definition demo_sections :: sections where
  "demo_sections = wrapper_sections demo_xml (hd demo_matches) (last demo_matches)"

text \<open>The two turns of the loop on that feed.\<close>

definition demo_turns :: "iteration list" where
  "demo_turns =
     [iteration_body demo_world demo_constants demo_penv demo_matches demo_sections 0 1,
      iteration_body demo_world demo_constants demo_penv demo_matches demo_sections 2 2]"

text \<open>Twelve records, cut into batches of one.\<close>

definition one_constants :: constants where
  "one_constants = demo_constants\<lparr>BATCH_SIZE := 1\<rparr>"

definition twelve_matches :: "string list" where
  "twelve_matches = replicate 12 ''<Listing>A</Listing>''"

text \<open>A feed without the container, whose two records have the same text.\<close>

definition twin_xml :: string where
  "twin_xml = ''<Listing>A</Listing><Listing>A</Listing>''"

text \<open>A feed whose record spans three lines.\<close>

definition lined_xml :: string where
  "lined_xml =
     ''<Listings>'' @ [newline] @ ''<Listing>'' @ [newline] @ ''A'' @ [newline] @ ''</Listing>'' @
     [newline] @ ''</Listings>''"

definition lined_matches :: "string list" where
  "lined_matches = match_all listingRegex lined_xml"

definition lined_sections :: sections where
  "lined_sections = wrapper_sections lined_xml (hd lined_matches) (last lined_matches)"

definition lined_turn :: iteration where
  "lined_turn = iteration_body demo_world demo_constants demo_penv lined_matches lined_sections 0 1"


text \<open>A world whose feed has no record, and one whose feed has to be downloaded.\<close>

definition bare_world :: world where
  "bare_world =
     demo_world\<lparr>local_file := (\<lambda>p. if p = ''feed.xml'' then Some (Returned ''<Feed></Feed>'') else None)\<rparr>"

definition remote_world :: world where
  "remote_world = demo_world\<lparr>local_file := (\<lambda>p. None)\<rparr>"

section \<open>Properties\<close>

lemma BATCH_SIZE_init_const: "BATCH_SIZE_init penv = 130"
  by (simp add: BATCH_SIZE_init_def parseInt_def Let_def)

subsection \<open>The loop: its turns, and when it ends\<close>

lemma js_slice_chunk:
  assumes "0 \<le> i" "0 < b"
  shows "js_slice xs i (i + b) = take (nat b) (drop (nat i) xs)"
  using assms by (auto simp: js_slice_def Let_def min_def max_def)

lemma thrown_iteration_body:
  "thrown (iteration_body w c penv lm sec i k) =
     (case writeFileSync w (make_fileName (OUTPUT_DIR c) k)
             (make_batchXml (headerSection sec) (js_slice lm i (i + BATCH_SIZE c)) (footerSection sec)) of
        Returned u \<Rightarrow> None | Threw e \<Rightarrow> Some e)"
  by (simp add: iteration_body_def Let_def split: attempt.splits)

lemma batch_loop_turns:
  "batch_loop w c penv lm sec i k = Some (its, t) \<Longrightarrow>
     its = map (\<lambda>g. iteration_body w c penv lm sec (i + int g * BATCH_SIZE c) (k + g)) [0..<length its]"
proof (induction its arbitrary: i k)
  case Nil
  then show ?case by simp
next
  case (Cons it its)
  from Cons.prems have lt: "i < int (length lm)"
    by (subst (asm) batch_loop.simps) (auto split: if_splits)
  let ?it = "iteration_body w c penv lm sec i k"
  show ?case
  proof (cases "thrown ?it")
    case None
    with Cons.prems lt obtain r where
      r: "batch_loop w c penv lm sec (i + BATCH_SIZE c) (Suc k) = Some r"
      and eq: "(case r of (its', t') \<Rightarrow> Some (?it # its', t')) = Some (it # its, t)"
      by (subst (asm) batch_loop.simps) (auto simp: Let_def split: Option.bind_splits)
    from eq have it: "it = ?it" and r': "r = (its, t)"
      by (auto split: prod.splits)
    from r r' have "its = map (\<lambda>g. iteration_body w c penv lm sec
        (i + BATCH_SIZE c + int g * BATCH_SIZE c) (Suc k + g)) [0..<length its]"
      using Cons.IH by blast
    then have "its = map (\<lambda>g. iteration_body w c penv lm sec
        (i + int (Suc g) * BATCH_SIZE c) (k + Suc g)) [0..<length its]"
      by (simp add: algebra_simps)
    then have "its = map ((\<lambda>g. iteration_body w c penv lm sec
        (i + int g * BATCH_SIZE c) (k + g)) \<circ> Suc) [0..<length its]"
      by (simp add: comp_def)
    then have "its = map (\<lambda>g. iteration_body w c penv lm sec
        (i + int g * BATCH_SIZE c) (k + g)) [Suc 0..<Suc (length its)]"
      by (simp only: map_map [symmetric] map_Suc_upt)
    with it show ?thesis
      by (simp add: upt_conv_Cons del: upt_Suc)
  next
    case (Some e)
    with Cons.prems lt have "it = ?it" "its = []"
      by (subst (asm) batch_loop.simps, simp add: Let_def)+
    then show ?thesis by simp
  qed
qed

lemma batch_loop_total:
  assumes B: "0 < BATCH_SIZE c"
  shows "\<exists>its t. batch_loop w c penv lm sec i k = Some (its, t)"
proof (induction "nat (int (length lm) - i)" arbitrary: i k rule: less_induct)
  case less
  show ?case
  proof (cases "i < int (length lm)")
    case False
    then show ?thesis by (subst batch_loop.simps) simp
  next
    case True
    let ?it = "iteration_body w c penv lm sec i k"
    from True B have "nat (int (length lm) - (i + BATCH_SIZE c)) < nat (int (length lm) - i)"
      by simp
    from less [OF this] obtain its t where
      "batch_loop w c penv lm sec (i + BATCH_SIZE c) (Suc k) = Some (its, t)"
      by blast
    with True show ?thesis
      by (subst batch_loop.simps) (simp add: Let_def split: option.splits)
  qed
qed

lemma batch_loop_complete:
  assumes B: "0 < BATCH_SIZE c"
    and ok: "\<And>name text. writeFileSync w name text = Returned ()"
  shows "\<exists>its. batch_loop w c penv lm sec i k = Some (its, None) \<and>
           length its = nat ((int (length lm) - i + BATCH_SIZE c - 1) div BATCH_SIZE c)"
proof (induction "nat (int (length lm) - i)" arbitrary: i k rule: less_induct)
  case less
  let ?B = "BATCH_SIZE c"
  show ?case
  proof (cases "i < int (length lm)")
    case False
    then have "int (length lm) - i + ?B - 1 < ?B" by simp
    then have "(int (length lm) - i + ?B - 1) div ?B \<le> (?B - 1) div ?B"
      using B by (intro zdiv_mono1) simp_all
    moreover have "(?B - 1) div ?B = 0"
      using B by (simp add: div_pos_pos_trivial)
    ultimately have "(int (length lm) - i + ?B - 1) div ?B \<le> 0"
      by simp
    with False show ?thesis by (subst batch_loop.simps) simp
  next
    case True
    let ?it = "iteration_body w c penv lm sec i k"
    have th: "thrown ?it = None"
      by (simp add: thrown_iteration_body ok)
    from True B have "nat (int (length lm) - (i + ?B)) < nat (int (length lm) - i)"
      by simp
    from less [OF this] obtain its where
      its: "batch_loop w c penv lm sec (i + ?B) (Suc k) = Some (its, None)"
      and len: "length its = nat ((int (length lm) - (i + ?B) + ?B - 1) div ?B)"
      by blast
    have "(int (length lm) - i + ?B - 1) div ?B = (int (length lm) - i - 1) div ?B + 1"
      using B by (metis add.commute add_diff_eq diff_add_eq div_add_self1 less_irrefl)
    moreover have "0 \<le> (int (length lm) - i - 1) div ?B"
      using True B by (simp add: pos_imp_zdiv_nonneg_iff)
    ultimately have "nat ((int (length lm) - i + ?B - 1) div ?B) = Suc (length its)"
      using len by (simp add: nat_add_distrib)
    with True th its show ?thesis
      by (subst batch_loop.simps) (simp add: Let_def)
  qed
qed

text \<open>Without a positive batch size the offset never reaches the number of records.\<close>

lemma batch_loop_diverges:
  assumes B: "BATCH_SIZE c \<le> 0"
    and ok: "\<forall>name text. writeFileSync w name text = Returned ()"
    and lt: "i < int (length lm)"
  shows "batch_loop w c penv lm sec i k = None"
proof -
  have "i < int (length lm) \<Longrightarrow> batch_loop w c penv lm sec i k \<noteq> Some (its, t)" for its t i k
  proof (induction its arbitrary: i k)
    case Nil
    have "thrown (iteration_body w c penv lm sec i k) = None"
      by (simp add: thrown_iteration_body ok)
    with Nil show ?case
      by (subst batch_loop.simps) (auto simp: Let_def split: Option.bind_splits)
  next
    case (Cons it its)
    have th: "thrown (iteration_body w c penv lm sec i k) = None"
      by (simp add: thrown_iteration_body ok)
    from Cons.prems B have "i + BATCH_SIZE c < int (length lm)"
      by simp
    then have "batch_loop w c penv lm sec (i + BATCH_SIZE c) (Suc k) \<noteq> Some (its, t)"
      by (rule Cons.IH)
    with Cons.prems th show ?case
      by (subst batch_loop.simps) (auto simp: Let_def split: Option.bind_splits)
  qed
  with lt show ?thesis
    by (cases "batch_loop w c penv lm sec i k") auto
qed

subsection \<open>The batch size\<close>

text \<open>
  C9. The claim: a batch size given in the configuration is the one the script cuts
  with, and without one the batch size is 130. The script reads the variable with
  \<open>parseInt(process.env.BATCH_SIZE, 100)\<close>; radix 100 is outside 2 to 36, the result is
  NaN whatever the text, and the batch size is 130 also when \<open>BATCH_SIZE=150\<close> is set
  (read with radix 10, as \<open>PROCESSING_BATCH_SIZE\<close> is on line 27, the text gives 150).
\<close>

theorem batch_size_setting_ignored:
  "BATCH_SIZE (load_constants (w\<lparr>env := (env w)(''BATCH_SIZE'' \<mapsto> ''150'')\<rparr>)) = 130
   \<and> parseInt (Some ''150'') 10 = Some 150
   \<and> PROCESSING_BATCH_SIZE (load_constants (w\<lparr>env := (env w)(''PROCESSING_BATCH_SIZE'' \<mapsto> ''150'')\<rparr>))
       = Some (Some 150)"
proof -
  have "parseInt (Some ''150'') 10 = Some 150"
    by code_simp
  then show ?thesis
    by (simp add: load_constants_def BATCH_SIZE_init_const PROCESSING_BATCH_SIZE_init_def)
qed

subsection \<open>The records of each turn\<close>

lemma iteration_body_fields [simp]:
  "offset (iteration_body w c penv lm sec i k) = i"
  "loteIndex (iteration_body w c penv lm sec i k) = k"
  "batchMatches (iteration_body w c penv lm sec i k) = js_slice lm i (i + BATCH_SIZE c)"
  "batchCount (iteration_body w c penv lm sec i k) = length (js_slice lm i (i + BATCH_SIZE c))"
  "startIdx (iteration_body w c penv lm sec i k) = i + 1"
  "endIdx (iteration_body w c penv lm sec i k) = i + int (length (js_slice lm i (i + BATCH_SIZE c)))"
  "batchXml (iteration_body w c penv lm sec i k) =
     make_batchXml (headerSection sec) (js_slice lm i (i + BATCH_SIZE c)) (footerSection sec)"
  "fileName (iteration_body w c penv lm sec i k) = make_fileName (OUTPUT_DIR c) k"
  by (simp_all add: iteration_body_def Let_def split: attempt.splits)

lemma concat_chunks:
  "concat (map (\<lambda>g. take b (drop (g * b) xs)) [0..<n]) = take (n * b) xs"
proof (induction n)
  case 0
  then show ?case by simp
next
  case (Suc n)
  have "take (n * b) xs @ take b (drop (n * b) xs) = take (n * b + b) xs"
    by (simp add: take_add)
  with Suc show ?case by (simp add: add.commute)
qed

lemma ceil_div_covers:
  fixes n b :: nat
  assumes "0 < b"
  shows "n \<le> ((n + b - 1) div b) * b"
proof -
  have "(n + b - 1) mod b < b" using assms by simp
  moreover have "(n + b - 1) div b * b + (n + b - 1) mod b = n + b - 1" by simp
  ultimately show ?thesis by linarith
qed

lemma turn_chunk:
  assumes "0 < BATCH_SIZE c"
  shows "js_slice lm (int g * BATCH_SIZE c) (int g * BATCH_SIZE c + BATCH_SIZE c)
           = take (nat (BATCH_SIZE c)) (drop (g * nat (BATCH_SIZE c)) lm)"
proof -
  have "0 \<le> int g * BATCH_SIZE c" using assms by simp
  moreover have "nat (int g * BATCH_SIZE c) = g * nat (BATCH_SIZE c)"
    using assms by (simp add: nat_mult_distrib)
  ultimately show ?thesis using assms by (simp add: js_slice_chunk)
qed

lemma demo_matches_eq:
  "demo_matches = [''<Listing>A</Listing>'', ''<Listing>B</Listing>'', ''<Listing>C</Listing>'']"
  by code_simp

subsection \<open>The partition\<close>

text \<open>
  C1. For a positive batch size \<open>B\<close> and \<open>N\<close> extracted records, the loop makes exactly
  \<open>ceil(N/B)\<close> turns (batches), the record counts of the batches add up to \<open>N\<close>, and the
  record groups of the batches, put end to end in the order of the turns, are the
  extracted records: none lost, doubled or moved. The loop stops early only when a
  write throws, so every write is taken to succeed.
\<close>

theorem partition_covers_records:
  assumes B: "0 < BATCH_SIZE c"
    and ok: "\<forall>name text. writeFileSync w name text = Returned ()"
  shows "\<exists>its. batch_loop w c penv lm sec 0 1 = Some (its, None)
           \<and> int (length its) = (int (length lm) + BATCH_SIZE c - 1) div BATCH_SIZE c
           \<and> sum_list (map batchCount its) = length lm
           \<and> concat (map batchMatches its) = lm"
proof -
  let ?B = "BATCH_SIZE c"
  let ?b = "nat ?B"
  from batch_loop_complete [OF B, of w penv lm sec 0 1] ok obtain its where
    run: "batch_loop w c penv lm sec 0 1 = Some (its, None)"
    and len: "length its = nat ((int (length lm) + ?B - 1) div ?B)"
    by auto
  have nonneg: "0 \<le> (int (length lm) + ?B - 1) div ?B"
    using B by (simp add: pos_imp_zdiv_nonneg_iff)
  have len_nat: "length its = (length lm + ?b - 1) div ?b"
  proof -
    have "int (length lm) + ?B - 1 = int (length lm + ?b - 1)" using B by auto
    moreover have "?B = int ?b" using B by simp
    ultimately have "(int (length lm) + ?B - 1) div ?B = int ((length lm + ?b - 1) div ?b)"
      by (metis zdiv_int)
    with len show ?thesis by simp
  qed
  have its: "its = map (\<lambda>g. iteration_body w c penv lm sec (int g * ?B) (Suc g)) [0..<length its]"
    using batch_loop_turns [OF run] by simp
  have "map batchMatches its = map (\<lambda>g. take ?b (drop (g * ?b) lm)) [0..<length its]"
    by (subst its) (simp add: turn_chunk [OF B] comp_def)
  then have cat: "concat (map batchMatches its) = take (length its * ?b) lm"
    by (simp add: concat_chunks)
  have "length lm \<le> length its * ?b"
    unfolding len_nat using B by (intro ceil_div_covers) simp
  with cat have whole: "concat (map batchMatches its) = lm" by simp
  have "batchCount it = length (batchMatches it)" if "it \<in> set its" for it
    using that by (subst (asm) its) auto
  then have m: "map batchCount its = map (\<lambda>it. length (batchMatches it)) its"
    by simp
  have "length (concat (map batchMatches its)) = sum_list (map (\<lambda>it. length (batchMatches it)) its)"
    by (simp add: length_concat comp_def)
  with m have "sum_list (map batchCount its) = length (concat (map batchMatches its))"
    by (simp only:)
  with whole have "sum_list (map batchCount its) = length lm" by simp
  with run len nonneg whole show ?thesis by auto
qed

theorem partition_covers_records_witness:
  "0 < BATCH_SIZE demo_constants
   \<and> (\<forall>name text. writeFileSync demo_world name text = Returned ())
   \<and> (\<exists>its. batch_loop demo_world demo_constants demo_penv demo_matches demo_sections 0 1 = Some (its, None)
           \<and> int (length its) = 2
           \<and> sum_list (map batchCount its) = 3
           \<and> concat (map batchMatches its) = demo_matches)"
proof -
  have B: "0 < BATCH_SIZE demo_constants"
    by (simp add: demo_constants_def)
  have ok: "\<forall>name text. writeFileSync demo_world name text = Returned ()"
    by (simp add: demo_world_def)
  have n: "length demo_matches = 3"
    by (simp add: demo_matches_eq)
  have two: "(int (length demo_matches) + BATCH_SIZE demo_constants - 1) div BATCH_SIZE demo_constants = 2"
    by (simp add: n demo_constants_def)
  note run = partition_covers_records [OF B ok, of demo_penv demo_matches demo_sections,
      unfolded two, unfolded n]
  from B ok run show ?thesis
    by blast
qed

subsection \<open>The run on the small feed\<close>

lemma demo_sections_eq:
  "demo_sections = \<lparr>fallback = False, headerSection = ''<Listings ver=1>'', footerSection = ''</Listings>''\<rparr>"
proof -
  have "wrapper_sections demo_xml ''<Listing>A</Listing>'' ''<Listing>C</Listing>''
      = \<lparr>fallback = False, headerSection = ''<Listings ver=1>'', footerSection = ''</Listings>''\<rparr>"
    by code_simp
  then show ?thesis
    by (simp add: demo_sections_def demo_matches_eq)
qed

lemma demo_length: "length demo_matches = 3"
  by (simp add: demo_matches_eq)

lemma demo_run:
  "batch_loop demo_world demo_constants demo_penv demo_matches demo_sections 0 1
     = Some (demo_turns, None)"
proof -
  let ?loop = "batch_loop demo_world demo_constants demo_penv demo_matches demo_sections"
  let ?body = "iteration_body demo_world demo_constants demo_penv demo_matches demo_sections"
  have c: "BATCH_SIZE demo_constants = 2"
    by (simp add: demo_constants_def)
  have ok: "thrown (?body i k) = None" for i k
    by (simp add: thrown_iteration_body demo_world_def)
  have step: "?loop i k = Option.bind (?loop (i + 2) (Suc k)) (\<lambda>(its, t). Some (?body i k # its, t))"
    if "i < 3" for i k
    using that by (subst batch_loop.simps) (simp add: demo_length c ok Let_def)
  have stop: "?loop i k = Some ([], None)" if "\<not> i < 3" for i k
    using that by (subst batch_loop.simps) (simp add: demo_length)
  have "?loop 4 3 = Some ([], None)"
    by (simp add: stop)
  then have "?loop 2 2 = Some ([?body 2 2], None)"
    using step [of 2 2] by simp
  then show ?thesis
    using step [of 0 1] by (simp add: demo_turns_def numeral_2_eq_2)
qed


lemma effects_start:
  "\<exists>rest. effects (iteration_body w c penv lm sec i k)
     = WriteFile (make_fileName (OUTPUT_DIR c) k)
         (make_batchXml (headerSection sec) (js_slice lm i (i + BATCH_SIZE c)) (footerSection sec)) # rest"
  by (simp add: iteration_body_def Let_def split: attempt.splits)

subsection \<open>Splitting and joining\<close>

lemma batch_loop_offsets:
  "batch_loop w c penv lm sec i k = Some (its, t) \<Longrightarrow> g < length its \<Longrightarrow>
     i + int g * BATCH_SIZE c < int (length lm)"
proof (induction its arbitrary: i k g)
  case Nil
  then show ?case by simp
next
  case (Cons it its)
  from Cons.prems(1) have lt: "i < int (length lm)"
    by (subst (asm) batch_loop.simps) (auto split: if_splits)
  show ?case
  proof (cases g)
    case 0
    with lt show ?thesis by simp
  next
    case (Suc g')
    with Cons.prems(2) have g': "g' < length its" by simp
    then have "its \<noteq> []" by auto
    with Cons.prems(1) lt obtain r where
      r: "batch_loop w c penv lm sec (i + BATCH_SIZE c) (Suc k) = Some r"
      and eq: "(case r of (its', t') \<Rightarrow> Some (iteration_body w c penv lm sec i k # its', t')) = Some (it # its, t)"
      by (subst (asm) batch_loop.simps) (auto simp: Let_def split: Option.bind_splits option.splits)
    from eq have "r = (its, t)" by (auto split: prod.splits)
    with r have "i + BATCH_SIZE c + int g' * BATCH_SIZE c < int (length lm)"
      using Cons.IH g' by blast
    with Suc show ?thesis by (simp add: algebra_simps)
  qed
qed

lemma split_on_clean: "sep \<notin> set r \<Longrightarrow> split_on sep r = [r]"
  by (induction r) auto

lemma split_on_append: "sep \<notin> set r \<Longrightarrow> split_on sep (r @ sep # rest) = r # split_on sep rest"
  by (induction r) auto

lemma split_on_join:
  "rs \<noteq> [] \<Longrightarrow> \<forall>r \<in> set rs. sep \<notin> set r \<Longrightarrow> split_on sep (join [sep] rs) = rs"
proof (induction "[sep]" rs rule: join.induct)
  case 1
  then show ?case by simp
next
  case (2 x)
  then show ?case by (simp add: split_on_clean)
next
  case (3 x y ys)
  then show ?case by (simp add: split_on_append)
qed

lemma strip_wrapper_exact: "strip_wrapper pre suf (pre @ mid @ suf) = mid"
  by (simp add: strip_wrapper_def)

lemma split_on_nonempty: "split_on sep s \<noteq> []"
  by (induction s) (auto split: list.splits)

lemma length_split_on: "length (split_on sep s) = Suc (length (filter ((=) sep) s))"
  by (induction s) (auto split: list.splits simp: split_on_nonempty)

lemma separators_of_join:
  "ms \<noteq> [] \<Longrightarrow>
     length (filter ((=) sep) (join [sep] ms)) =
       length ms - 1 + length (filter ((=) sep) (concat ms))"
  by (induction "[sep]" ms rule: join.induct) simp_all

lemma pieces_of_join:
  assumes "ms \<noteq> []"
  shows "length (split_on sep (join [sep] ms)) = length ms + length (filter ((=) sep) (concat ms))"
proof -
  from assms have "0 < length ms" by simp
  then show ?thesis
    by (simp add: length_split_on separators_of_join [OF assms])
qed

lemma lined_matches_eq:
  "lined_matches = [''<Listing>'' @ [newline] @ ''A'' @ [newline] @ ''</Listing>'']"
  by code_simp

lemma lined_sections_eq:
  "lined_sections = \<lparr>fallback = False, headerSection = ''<Listings>'', footerSection = ''</Listings>''\<rparr>"
proof -
  have "wrapper_sections lined_xml (''<Listing>'' @ [newline] @ ''A'' @ [newline] @ ''</Listing>'')
          (''<Listing>'' @ [newline] @ ''A'' @ [newline] @ ''</Listing>'')
      = \<lparr>fallback = False, headerSection = ''<Listings>'', footerSection = ''</Listings>''\<rparr>"
    by code_simp
  then show ?thesis
    by (simp add: lined_sections_def lined_matches_eq)
qed

lemma lined_run:
  "batch_loop demo_world demo_constants demo_penv lined_matches lined_sections 0 1
     = Some ([lined_turn], None)"
proof -
  let ?loop = "batch_loop demo_world demo_constants demo_penv lined_matches lined_sections"
  have n: "length lined_matches = 1"
    by (simp add: lined_matches_eq)
  have c: "BATCH_SIZE demo_constants = 2"
    by (simp add: demo_constants_def)
  have ok: "thrown lined_turn = None"
    by (simp add: lined_turn_def thrown_iteration_body demo_world_def)
  have "?loop 2 2 = Some ([], None)"
    by (subst batch_loop.simps) (simp add: n)
  then show ?thesis
    using ok by (subst batch_loop.simps) (simp add: n c Let_def lined_turn_def numeral_2_eq_2)
qed

subsection \<open>Reading a batch back\<close>

text \<open>
  C3, as claimed: for every batch and all record contents, stripping the shared prefix and
  suffix from the text of the batch and splitting the rest on the newline gives back the
  records of the batch. A record is copied as it stands in the feed and may span several
  lines. For the feed \<open>lined_xml\<close>, whose one record has three lines, the split gives
  three pieces and not the record, whether the newlines that the script puts after the
  header and before the footer are stripped with the wrapper or not.
\<close>

theorem read_back_counterexample:
  "split_on newline
     (strip_wrapper (headerSection lined_sections @ [newline]) ([newline] @ footerSection lined_sections)
        (batchXml lined_turn))
     \<noteq> batchMatches lined_turn
   \<and> split_on newline
       (strip_wrapper (headerSection lined_sections) (footerSection lined_sections) (batchXml lined_turn))
     \<noteq> batchMatches lined_turn"
proof -
  have ms: "batchMatches lined_turn = [''<Listing>'' @ [newline] @ ''A'' @ [newline] @ ''</Listing>'']"
    by (simp add: lined_turn_def lined_matches_eq demo_constants_def js_slice_def)
  have xml: "batchXml lined_turn = ''<Listings>'' @ [newline] @ ''<Listing>'' @ [newline] @ ''A'' @ [newline] @
      ''</Listing>'' @ [newline] @ ''</Listings>''"
    by (simp add: lined_turn_def lined_matches_eq lined_sections_eq demo_constants_def js_slice_def
        make_batchXml_def)
  show ?thesis
    unfolding ms xml by (simp add: lined_sections_eq strip_wrapper_def newline_def)
qed

text \<open>
  C3, amended: in a run with a positive batch size, for every batch, stripping the header
  with the newline after it and the footer with the newline before it from the text of
  the batch, and splitting the rest on the newline, gives as many pieces as the batch has
  records and newlines inside its records together. When no record of the batch contains
  a newline, the pieces are exactly the records of the batch; when a record contains a
  newline, there are more pieces than records.
\<close>

theorem read_back_pieces:
  assumes B: "0 < BATCH_SIZE c"
    and run: "batch_loop w c penv lm sec 0 1 = Some (its, t)"
    and g: "g < length its"
  shows "length (split_on newline
            (strip_wrapper (headerSection sec @ [newline]) ([newline] @ footerSection sec)
               (batchXml (its ! g))))
           = length (batchMatches (its ! g)) +
             length (filter ((=) newline) (concat (batchMatches (its ! g))))
       \<and> ((\<forall>r \<in> set (batchMatches (its ! g)). newline \<notin> set r) \<longrightarrow>
            split_on newline
              (strip_wrapper (headerSection sec @ [newline]) ([newline] @ footerSection sec)
                 (batchXml (its ! g)))
            = batchMatches (its ! g))
       \<and> ((\<exists>r \<in> set (batchMatches (its ! g)). newline \<in> set r) \<longrightarrow>
            length (batchMatches (its ! g))
              < length (split_on newline
                  (strip_wrapper (headerSection sec @ [newline]) ([newline] @ footerSection sec)
                     (batchXml (its ! g)))))"
proof -
  let ?i = "int g * BATCH_SIZE c"
  let ?it = "iteration_body w c penv lm sec ?i (Suc g)"
  let ?ms = "batchMatches ?it"
  have "its = map (\<lambda>g. iteration_body w c penv lm sec (int g * BATCH_SIZE c) (Suc g)) [0..<length its]"
    using batch_loop_turns [OF run] by simp
  then have "its ! g = map (\<lambda>g. iteration_body w c penv lm sec (int g * BATCH_SIZE c) (Suc g)) [0..<length its] ! g"
    by simp
  with g have it: "its ! g = ?it"
    by simp
  from batch_loop_offsets [OF run g] have lt: "?i < int (length lm)"
    by simp
  have ms: "?ms = take (nat (BATCH_SIZE c)) (drop (g * nat (BATCH_SIZE c)) lm)"
    by (simp add: turn_chunk [OF B])
  have eq: "nat ?i = g * nat (BATCH_SIZE c)"
    using B by (simp add: nat_mult_distrib)
  have "0 \<le> ?i"
    using B by simp
  with lt have "nat ?i < length lm"
    by (simp only: nat_less_iff)
  then have "g * nat (BATCH_SIZE c) < length lm"
    by (simp only: eq)
  with B ms have nonempty: "?ms \<noteq> []"
    by simp
  have "batchXml ?it = (headerSection sec @ [newline]) @ join [newline] ?ms @
      ([newline] @ footerSection sec)"
    by (simp add: make_batchXml_def)
  then have stripped: "strip_wrapper (headerSection sec @ [newline]) ([newline] @ footerSection sec)
      (batchXml ?it) = join [newline] ?ms"
    by (simp only: strip_wrapper_exact)
  have count: "length (split_on newline (join [newline] ?ms))
      = length ?ms + length (filter ((=) newline) (concat ?ms))"
    using nonempty by (rule pieces_of_join)
  have clean: "split_on newline (join [newline] ?ms) = ?ms"
    if "\<forall>r \<in> set ?ms. newline \<notin> set r"
    using nonempty that by (rule split_on_join)
  have more: "length ?ms < length (split_on newline (join [newline] ?ms))"
    if "\<exists>r \<in> set ?ms. newline \<in> set r"
  proof -
    from that have "newline \<in> set (concat ?ms)"
      by auto
    then have "filter ((=) newline) (concat ?ms) \<noteq> []"
      by (simp add: filter_empty_conv)
    then have "0 < length (filter ((=) newline) (concat ?ms))"
      by simp
    with count show ?thesis
      by linarith
  qed
  from count clean more show ?thesis
    unfolding it stripped by blast
qed

theorem read_back_pieces_witness:
  "0 < BATCH_SIZE demo_constants
   \<and> batch_loop demo_world demo_constants demo_penv demo_matches demo_sections 0 1 = Some (demo_turns, None)
   \<and> 0 < length demo_turns
   \<and> batchMatches (demo_turns ! 0) = [''<Listing>A</Listing>'', ''<Listing>B</Listing>'']
   \<and> newline \<notin> set ''<Listing>A</Listing>''
   \<and> newline \<notin> set ''<Listing>B</Listing>''
   \<and> split_on newline
        (strip_wrapper (headerSection demo_sections @ [newline]) ([newline] @ footerSection demo_sections)
           (batchXml (demo_turns ! 0)))
      = [''<Listing>A</Listing>'', ''<Listing>B</Listing>'']
   \<and> batch_loop demo_world demo_constants demo_penv lined_matches lined_sections 0 1
        = Some ([lined_turn], None)
   \<and> batchMatches ([lined_turn] ! 0) = [''<Listing>'' @ [newline] @ ''A'' @ [newline] @ ''</Listing>'']
   \<and> length (split_on newline
        (strip_wrapper (headerSection lined_sections @ [newline]) ([newline] @ footerSection lined_sections)
           (batchXml ([lined_turn] ! 0)))) = 3"
proof -
  have B: "0 < BATCH_SIZE demo_constants"
    by (simp add: demo_constants_def)
  have g: "0 < length demo_turns"
    by (simp add: demo_turns_def)
  have ms: "batchMatches (demo_turns ! 0) = [''<Listing>A</Listing>'', ''<Listing>B</Listing>'']"
    by (simp add: demo_turns_def demo_matches_eq demo_constants_def js_slice_def)
  have lines: "newline \<notin> set ''<Listing>A</Listing>''" "newline \<notin> set ''<Listing>B</Listing>''"
    by (simp_all add: newline_def)
  then have clean: "\<forall>r \<in> set (batchMatches (demo_turns ! 0)). newline \<notin> set r"
    unfolding ms by simp
  note th = read_back_pieces [OF B demo_run g]
  from th clean have recovered: "split_on newline
        (strip_wrapper (headerSection demo_sections @ [newline]) ([newline] @ footerSection demo_sections)
           (batchXml (demo_turns ! 0)))
      = [''<Listing>A</Listing>'', ''<Listing>B</Listing>'']"
    unfolding ms by blast
  have g1: "0 < length [lined_turn]"
    by simp
  have lms: "batchMatches ([lined_turn] ! 0) = [''<Listing>'' @ [newline] @ ''A'' @ [newline] @ ''</Listing>'']"
    by (simp add: lined_turn_def lined_matches_eq demo_constants_def js_slice_def)
  note th1 = read_back_pieces [OF B lined_run g1]
  from th1 have "length (split_on newline
        (strip_wrapper (headerSection lined_sections @ [newline]) ([newline] @ footerSection lined_sections)
           (batchXml ([lined_turn] ! 0))))
      = length (batchMatches ([lined_turn] ! 0)) +
        length (filter ((=) newline) (concat (batchMatches ([lined_turn] ! 0))))"
    by blast
  then have three: "length (split_on newline
        (strip_wrapper (headerSection lined_sections @ [newline]) ([newline] @ footerSection lined_sections)
           (batchXml ([lined_turn] ! 0)))) = 3"
    unfolding lms by (simp add: newline_def)
  from B demo_run g ms lines recovered lined_run lms three show ?thesis
    by blast
qed

subsection \<open>The fallback wrapper\<close>

text \<open>
  C4. The claim: when the container's opening or closing tag is missing and at least one
  record was found, the header is the text before the first record followed by an
  opening container tag, and the footer is a closing container tag followed by the text
  after the last record. The script looks for the end of the last record with
  \<open>xmlText.indexOf\<close> of the record's text, which finds the first place where that text
  stands. In \<open>twin_xml\<close> the two records have the same text: the matches are at 0 and
  at 20, nothing follows the last record, and yet the footer carries the second record
  after the closing tag.
\<close>

theorem fallback_suffix_repeated_record:
  "exec_all listingRegex 0 twin_xml = [(0, ''<Listing>A</Listing>''), (20, ''<Listing>A</Listing>'')]
   \<and> search openListingsRegex twin_xml = -1
   \<and> wrapper_sections twin_xml (hd (match_all listingRegex twin_xml)) (last (match_all listingRegex twin_xml))
       = \<lparr>fallback = True, headerSection = ''<Listings>'',
          footerSection = ''</Listings><Listing>A</Listing>''\<rparr>
   \<and> drop (20 + length ''<Listing>A</Listing>'') twin_xml = []"
  by code_simp

subsection \<open>A feed without records\<close>

lemma substring_take: "substring s 0 n = take n s"
  by (simp add: substring_def Let_def min_def)

lemma fetch_events:
  "fetchXmlText w penv url = (evs, r) \<Longrightarrow>
     evs = [] \<or> evs = [LogDownloading url, AxiosGet url (tls_setting penv)]"
  by (auto simp: fetchXmlText_def split: option.splits attempt.splits)

text \<open>
  C5. When the document was loaded (a text that is not empty) and holds no record, \<open>main\<close>
  returns: it reports that no record was found, prints the first 500 code units of the
  document at most, and stops. Nothing is written, and the handler of fatal errors is
  not reached.
\<close>

theorem no_records_halts:
  assumes fetch: "fetchXmlText w penv (XML_URL c) = (evs, Returned (Str xmlText))"
    and loaded: "xmlText \<noteq> []"
    and none: "match_all listingRegex xmlText = []"
  shows "main w c penv = Some (LogFetching (XML_URL c) # evs @ [ErrNoListing, LogPreview (take 500 xmlText)])
       \<and> length (take 500 xmlText) \<le> 500
       \<and> (\<forall>e \<in> set (LogFetching (XML_URL c) # evs @ [ErrNoListing, LogPreview (take 500 xmlText)]).
             \<not> is_write e \<and> \<not> is_fatal e)"
proof -
  have "substring xmlText 0 500 = take 500 xmlText"
    by (rule substring_take)
  with fetch loaded none have run:
    "main w c penv = Some (LogFetching (XML_URL c) # evs @ [ErrNoListing, LogPreview (take 500 xmlText)])"
    by (simp add: main_def)
  from fetch_events [OF fetch] have "\<forall>e \<in> set evs. \<not> is_write e \<and> \<not> is_fatal e"
    by auto
  with run show ?thesis
    by simp
qed

theorem no_records_halts_witness:
  "fetchXmlText bare_world demo_penv (XML_URL demo_constants) = ([], Returned (Str ''<Feed></Feed>''))
   \<and> ''<Feed></Feed>'' \<noteq> []
   \<and> match_all listingRegex ''<Feed></Feed>'' = []
   \<and> main bare_world demo_constants demo_penv
       = Some [LogFetching (Some ''feed.xml''), ErrNoListing, LogPreview ''<Feed></Feed>'']"
proof -
  have fetch: "fetchXmlText bare_world demo_penv (XML_URL demo_constants) = ([], Returned (Str ''<Feed></Feed>''))"
    by (simp add: fetchXmlText_def bare_world_def demo_constants_def load_constants_def demo_world_def)
  have loaded: "''<Feed></Feed>'' \<noteq> []"
    by simp
  have none: "match_all listingRegex ''<Feed></Feed>'' = []"
    by code_simp
  have url: "XML_URL demo_constants = Some ''feed.xml''"
    by (simp add: demo_constants_def load_constants_def demo_world_def)
  from no_records_halts [OF fetch loaded none] have
    "main bare_world demo_constants demo_penv
       = Some [LogFetching (Some ''feed.xml''), ErrNoListing, LogPreview ''<Feed></Feed>'']"
    by (simp add: url)
  with fetch loaded none show ?thesis
    by blast
qed

subsection \<open>What a turn does\<close>

lemma batch_loop_full:
  assumes B: "0 < BATCH_SIZE c"
    and ok: "\<forall>name text. writeFileSync w name text = Returned ()"
  shows "\<exists>its. batch_loop w c penv lm sec 0 1 = Some (its, None)
           \<and> int (length its) = (int (length lm) + BATCH_SIZE c - 1) div BATCH_SIZE c
           \<and> (\<forall>g<length its. its ! g = iteration_body w c penv lm sec (int g * BATCH_SIZE c) (Suc g))"
proof -
  from batch_loop_complete [OF B, of w penv lm sec 0 1] ok obtain its where
    run: "batch_loop w c penv lm sec 0 1 = Some (its, None)"
    and len: "length its = nat ((int (length lm) + BATCH_SIZE c - 1) div BATCH_SIZE c)"
    by auto
  have "0 \<le> (int (length lm) + BATCH_SIZE c - 1) div BATCH_SIZE c"
    using B by (simp add: pos_imp_zdiv_nonneg_iff)
  with len have len': "int (length its) = (int (length lm) + BATCH_SIZE c - 1) div BATCH_SIZE c"
    by simp
  have its: "its = map (\<lambda>g. iteration_body w c penv lm sec (int g * BATCH_SIZE c) (Suc g)) [0..<length its]"
    using batch_loop_turns [OF run] by simp
  have "its ! g = iteration_body w c penv lm sec (int g * BATCH_SIZE c) (Suc g)" if "g < length its" for g
  proof -
    from its have "its ! g = map (\<lambda>g. iteration_body w c penv lm sec (int g * BATCH_SIZE c) (Suc g)) [0..<length its] ! g"
      by simp
    with that show ?thesis by simp
  qed
  with run len' show ?thesis
    by blast
qed

lemma turn_answer:
  "writeFileSync w (make_fileName (OUTPUT_DIR c) k)
     (make_batchXml (headerSection sec) (js_slice lm i (i + BATCH_SIZE c)) (footerSection sec)) = Returned u \<Longrightarrow>
   answer (iteration_body w c penv lm sec i k) = toLowerCase (trim (typed w k))"
  by (simp add: iteration_body_def Let_def askQuestion_def)

lemma turn_effects:
  "writeFileSync w (make_fileName (OUTPUT_DIR c) k)
     (make_batchXml (headerSection sec) (js_slice lm i (i + BATCH_SIZE c)) (footerSection sec)) = Returned u \<Longrightarrow>
   effects (iteration_body w c penv lm sec i k) =
     WriteFile (fileName (iteration_body w c penv lm sec i k)) (batchXml (iteration_body w c penv lm sec i k)) #
     LogSaved k (fileName (iteration_body w c penv lm sec i k)) (batchCount (iteration_body w c penv lm sec i k))
       (startIdx (iteration_body w c penv lm sec i k)) (endIdx (iteration_body w c penv lm sec i k)) #
     Question k (batchCount (iteration_body w c penv lm sec i k))
       (startIdx (iteration_body w c penv lm sec i k)) (endIdx (iteration_body w c penv lm sec i k)) (API_URL c) #
     (if answer (iteration_body w c penv lm sec i k) = ''s'' \<or> answer (iteration_body w c penv lm sec i k) = ''sim''
      then [LogSending k,
            AxiosPost (API_URL c)
              \<lparr>xmlData = batchXml (iteration_body w c penv lm sec i k), batchSize = PROCESSING_BATCH_SIZE c\<rparr>
              (make_headers c) (tls_setting penv),
            (case posted w k of Returned shown \<Rightarrow> LogSent k shown | Threw detail \<Rightarrow> ErrSend k detail)]
      else [LogSkipped k])"
  by (simp add: iteration_body_def Let_def affirmative_def send_batch_def split: attempt.splits)

lemma demo_ok:
  "0 < BATCH_SIZE demo_constants"
  "\<forall>name text. writeFileSync demo_world name text = Returned ()"
  by (simp_all add: demo_constants_def demo_world_def)

lemma demo_answers:
  "toLowerCase (trim (typed demo_world (0 + 1))) = ''sim''"
  "toLowerCase (trim (typed demo_world (1 + 1))) = ''n''"
  by code_simp+

subsection \<open>Joined records and decimal numerals\<close>

lemma join_concat: "join [sep] ms = tl (concat (map ((#) sep) ms))"
  by (induction "[sep]" ms rule: join.induct) simp_all

lemma digit_char_facts:
  assumes "d < 10"
  shows "digit_char d \<in> set ''0123456789''"
    and "(of_char (digit_char d) :: nat) = 48 + d"
    and "digit_char d = CHR ''0'' \<longleftrightarrow> d = 0"
proof -
  from assms have "d = 0 \<or> d = 1 \<or> d = 2 \<or> d = 3 \<or> d = 4 \<or> d = 5 \<or> d = 6 \<or> d = 7 \<or> d = 8 \<or> d = 9"
    by arith
  then show "digit_char d \<in> set ''0123456789''"
    and "(of_char (digit_char d) :: nat) = 48 + d"
    and "digit_char d = CHR ''0'' \<longleftrightarrow> d = 0"
    by (auto simp: digit_char_def decimal_digits_def)
qed

lemma String_of_nat_nonempty: "String_of_nat n \<noteq> []"
  by (subst String_of_nat.simps) simp

lemma String_of_nat_digits: "set (String_of_nat n) \<subseteq> set ''0123456789''"
proof (induction n rule: String_of_nat.induct)
  case (1 n)
  show ?case
  proof (cases "n < 10")
    case True
    then show ?thesis
      using digit_char_facts(1) [of n] by (subst String_of_nat.simps) simp
  next
    case False
    moreover have "n mod 10 < 10" by simp
    ultimately show ?thesis
      using "1.IH" digit_char_facts(1) [of "n mod 10"] by (subst String_of_nat.simps) simp
  qed
qed

lemma String_of_nat_value:
  "foldl (\<lambda>a ch. 10 * a + (of_char ch - 48)) 0 (String_of_nat n) = n"
proof (induction n rule: String_of_nat.induct)
  case (1 n)
  show ?case
  proof (cases "n < 10")
    case True
    then show ?thesis
      using digit_char_facts(2) [of n] by (subst String_of_nat.simps) simp
  next
    case False
    moreover have "n mod 10 < 10" by simp
    ultimately show ?thesis
      using "1.IH" digit_char_facts(2) [of "n mod 10"] by (subst String_of_nat.simps) simp
  qed
qed

lemma String_of_nat_hd: "0 < n \<Longrightarrow> hd (String_of_nat n) \<noteq> CHR ''0''"
proof (induction n rule: String_of_nat.induct)
  case (1 n)
  show ?case
  proof (cases "n < 10")
    case True
    with "1.prems" show ?thesis
      using digit_char_facts(3) [of n] by (subst String_of_nat.simps) simp
  next
    case False
    then have "0 < n div 10" by simp
    with False "1.IH" have "hd (String_of_nat (n div 10)) \<noteq> CHR ''0''" by simp
    with False show ?thesis
      by (subst String_of_nat.simps) (simp add: String_of_nat_nonempty)
  qed
qed

lemma demo_file_names:
  "make_fileName (OUTPUT_DIR demo_constants) (Suc 0) = ''/work/lotes/lote_001.xml''"
  "make_fileName (OUTPUT_DIR one_constants) 12 = ''/work/lotes/lote_012.xml''"
  by code_simp+

subsection \<open>Text, index and file of a batch\<close>

text \<open>
  C2. In every run of the loop that ends, turn \<open>g\<close> (counted from 0) holds the records
  from offset \<open>g * B\<close>; its text is the header, then each record of the group preceded
  by a newline, then a newline and the footer, which is the header, a newline, the
  records joined with newlines, a newline and the footer; and its index is \<open>g + 1\<close>.
  The file it writes is named \<open>lote_\<close>, the decimal numeral of the index (digits only,
  no leading zero, with the index as its value) padded with zeros on the left to three
  digits or more, and \<open>.xml\<close>, in the output directory; the text is what the turn writes
  there first.
\<close>

theorem batch_text_and_index:
  assumes run: "batch_loop w c penv lm sec 0 1 = Some (its, t)"
    and g: "g < length its"
  shows "batchMatches (its ! g) = js_slice lm (int g * BATCH_SIZE c) (int g * BATCH_SIZE c + BATCH_SIZE c)
       \<and> (0 < BATCH_SIZE c \<longrightarrow>
            batchMatches (its ! g) = take (nat (BATCH_SIZE c)) (drop (g * nat (BATCH_SIZE c)) lm))
       \<and> batchXml (its ! g) =
           headerSection sec @ [newline] @ tl (concat (map ((#) newline) (batchMatches (its ! g)))) @
           [newline] @ footerSection sec
       \<and> loteIndex (its ! g) = g + 1
       \<and> (\<exists>d. fileName (its ! g) =
                 OUTPUT_DIR c @ (if OUTPUT_DIR c = ''/'' then [] else ''/'') @
                 ''lote_'' @ replicate (3 - length d) (CHR ''0'') @ d @ ''.xml''
              \<and> 3 \<le> length (replicate (3 - length d) (CHR ''0'') @ d)
              \<and> d \<noteq> [] \<and> set d \<subseteq> set ''0123456789'' \<and> hd d \<noteq> CHR ''0''
              \<and> foldl (\<lambda>a ch. 10 * a + (of_char ch - 48)) 0 d = g + 1)
       \<and> (\<exists>rest. effects (its ! g) = WriteFile (fileName (its ! g)) (batchXml (its ! g)) # rest)"
proof -
  let ?it = "iteration_body w c penv lm sec (int g * BATCH_SIZE c) (Suc g)"
  let ?d = "String_of_nat (Suc g)"
  have "its = map (\<lambda>g. iteration_body w c penv lm sec (int g * BATCH_SIZE c) (Suc g)) [0..<length its]"
    using batch_loop_turns [OF run] by simp
  then have "its ! g = map (\<lambda>g. iteration_body w c penv lm sec (int g * BATCH_SIZE c) (Suc g)) [0..<length its] ! g"
    by simp
  with g have it: "its ! g = ?it"
    by simp
  have ms: "batchMatches ?it = js_slice lm (int g * BATCH_SIZE c) (int g * BATCH_SIZE c + BATCH_SIZE c)"
    by simp
  have chunk: "0 < BATCH_SIZE c \<longrightarrow>
      batchMatches ?it = take (nat (BATCH_SIZE c)) (drop (g * nat (BATCH_SIZE c)) lm)"
    by (simp add: turn_chunk)
  have xml: "batchXml ?it = headerSection sec @ [newline] @ tl (concat (map ((#) newline) (batchMatches ?it))) @
      [newline] @ footerSection sec"
    by (simp add: make_batchXml_def join_concat)
  have idx: "loteIndex ?it = g + 1"
    by simp
  have name: "fileName ?it = OUTPUT_DIR c @ (if OUTPUT_DIR c = ''/'' then [] else ''/'') @
      ''lote_'' @ replicate (3 - length ?d) (CHR ''0'') @ ?d @ ''.xml''"
    by (simp add: make_fileName_def path_join_def padStart_def)
  have pad: "3 \<le> length (replicate (3 - length ?d) (CHR ''0'') @ ?d)"
    by simp
  have dec: "?d \<noteq> []" "set ?d \<subseteq> set ''0123456789''" "hd ?d \<noteq> CHR ''0''"
    "foldl (\<lambda>a ch. 10 * a + (of_char ch - 48)) 0 ?d = g + 1"
    using String_of_nat_nonempty [of "Suc g"] String_of_nat_digits [of "Suc g"]
      String_of_nat_hd [of "Suc g"] String_of_nat_value [of "Suc g"] by simp_all
  from name pad dec have named: "\<exists>d. fileName ?it =
                 OUTPUT_DIR c @ (if OUTPUT_DIR c = ''/'' then [] else ''/'') @
                 ''lote_'' @ replicate (3 - length d) (CHR ''0'') @ d @ ''.xml''
              \<and> 3 \<le> length (replicate (3 - length d) (CHR ''0'') @ d)
              \<and> d \<noteq> [] \<and> set d \<subseteq> set ''0123456789'' \<and> hd d \<noteq> CHR ''0''
              \<and> foldl (\<lambda>a ch. 10 * a + (of_char ch - 48)) 0 d = g + 1"
    by blast
  from effects_start [of w c penv lm sec "int g * BATCH_SIZE c" "Suc g"]
  have eff: "\<exists>rest. effects ?it = WriteFile (fileName ?it) (batchXml ?it) # rest"
    by simp
  from ms chunk xml idx named eff show ?thesis
    unfolding it by blast
qed

theorem batch_text_and_index_witness:
  "batch_loop demo_world demo_constants demo_penv demo_matches demo_sections 0 1 = Some (demo_turns, None)
   \<and> 0 < length demo_turns
   \<and> batchMatches (demo_turns ! 0) = [''<Listing>A</Listing>'', ''<Listing>B</Listing>'']
   \<and> batchXml (demo_turns ! 0) =
        ''<Listings ver=1>'' @ [newline] @ ''<Listing>A</Listing>'' @ [newline] @
        ''<Listing>B</Listing>'' @ [newline] @ ''</Listings>''
   \<and> loteIndex (demo_turns ! 0) = 1
   \<and> fileName (demo_turns ! 0) = ''/work/lotes/lote_001.xml''
   \<and> (\<exists>its t. batch_loop demo_world one_constants demo_penv twelve_matches demo_sections 0 1 = Some (its, t)
         \<and> 11 < length its
         \<and> loteIndex (its ! 11) = 12
         \<and> fileName (its ! 11) = ''/work/lotes/lote_012.xml''
         \<and> (\<exists>d. ''/work/lotes/lote_012.xml'' =
                   OUTPUT_DIR one_constants @ (if OUTPUT_DIR one_constants = ''/'' then [] else ''/'') @
                   ''lote_'' @ replicate (3 - length d) (CHR ''0'') @ d @ ''.xml''
                \<and> hd d \<noteq> CHR ''0''
                \<and> foldl (\<lambda>a ch. 10 * a + (of_char ch - 48)) 0 d = (12::nat)))"
proof -
  have g: "0 < length demo_turns"
    by (simp add: demo_turns_def)
  note th = batch_text_and_index [OF demo_run g]
  have B: "0 < BATCH_SIZE demo_constants"
    by (simp add: demo_constants_def)
  from th B have "batchMatches (demo_turns ! 0)
      = take (nat (BATCH_SIZE demo_constants)) (drop (0 * nat (BATCH_SIZE demo_constants)) demo_matches)"
    by blast
  then have a: "batchMatches (demo_turns ! 0) = [''<Listing>A</Listing>'', ''<Listing>B</Listing>'']"
    by (simp add: demo_constants_def demo_matches_eq)
  from th have "batchXml (demo_turns ! 0) =
      headerSection demo_sections @ [newline] @
      tl (concat (map ((#) newline) (batchMatches (demo_turns ! 0)))) @ [newline] @ footerSection demo_sections"
    by (simp only:)
  then have b: "batchXml (demo_turns ! 0) =
        ''<Listings ver=1>'' @ [newline] @ ''<Listing>A</Listing>'' @ [newline] @
        ''<Listing>B</Listing>'' @ [newline] @ ''</Listings>''"
    unfolding a by (simp add: demo_sections_eq)
  from th have c: "loteIndex (demo_turns ! 0) = 1"
    by simp
  have d: "fileName (demo_turns ! 0) = ''/work/lotes/lote_001.xml''"
    by (simp add: demo_turns_def demo_file_names)
  have B1: "0 < BATCH_SIZE one_constants"
    by (simp add: one_constants_def)
  from batch_loop_full [OF B1 demo_ok(2), of demo_penv twelve_matches demo_sections] obtain its where
    run: "batch_loop demo_world one_constants demo_penv twelve_matches demo_sections 0 1 = Some (its, None)"
    and len: "int (length its) = (int (length twelve_matches) + BATCH_SIZE one_constants - 1) div BATCH_SIZE one_constants"
    and nth: "\<forall>g<length its. its ! g =
      iteration_body demo_world one_constants demo_penv twelve_matches demo_sections
        (int g * BATCH_SIZE one_constants) (Suc g)"
    by blast
  from len have g11: "11 < length its"
    by (simp add: one_constants_def twelve_matches_def)
  note th12 = batch_text_and_index [OF run g11]
  from th12 have i12: "loteIndex (its ! 11) = 12"
    by simp
  from nth g11 have f12: "fileName (its ! 11) = ''/work/lotes/lote_012.xml''"
    by (simp add: demo_file_names)
  from th12 obtain dd where
    "fileName (its ! 11) =
       OUTPUT_DIR one_constants @ (if OUTPUT_DIR one_constants = ''/'' then [] else ''/'') @
       ''lote_'' @ replicate (3 - length dd) (CHR ''0'') @ dd @ ''.xml''"
    "hd dd \<noteq> CHR ''0''"
    "foldl (\<lambda>a ch. 10 * a + (of_char ch - 48)) 0 dd = (11::nat) + 1"
    by blast
  then have e12: "\<exists>d. ''/work/lotes/lote_012.xml'' =
                   OUTPUT_DIR one_constants @ (if OUTPUT_DIR one_constants = ''/'' then [] else ''/'') @
                   ''lote_'' @ replicate (3 - length d) (CHR ''0'') @ d @ ''.xml''
                \<and> hd d \<noteq> CHR ''0''
                \<and> foldl (\<lambda>a ch. 10 * a + (of_char ch - 48)) 0 d = (12::nat)"
    unfolding f12 by auto
  from run g11 i12 f12 e12 have many:
    "\<exists>its t. batch_loop demo_world one_constants demo_penv twelve_matches demo_sections 0 1 = Some (its, t)
         \<and> 11 < length its
         \<and> loteIndex (its ! 11) = 12
         \<and> fileName (its ! 11) = ''/work/lotes/lote_012.xml''
         \<and> (\<exists>d. ''/work/lotes/lote_012.xml'' =
                   OUTPUT_DIR one_constants @ (if OUTPUT_DIR one_constants = ''/'' then [] else ''/'') @
                   ''lote_'' @ replicate (3 - length d) (CHR ''0'') @ d @ ''.xml''
                \<and> hd d \<noteq> CHR ''0''
                \<and> foldl (\<lambda>a ch. 10 * a + (of_char ch - 48)) 0 d = (12::nat))"
    by blast
  from demo_run g a b c d many show ?thesis
    by blast
qed

subsection \<open>The confirmation\<close>

text \<open>
  C7. With a positive batch size and every write succeeding, the loop makes all of its
  \<open>ceil(N/B)\<close> turns whatever the operator types. In each turn the operator is asked
  once; the answer is the typed line, trimmed and in lower case; the batch is posted
  if and only if that answer is \<open>s\<close> or \<open>sim\<close>, and otherwise (the empty line
  included) the turn posts nothing and logs that the batch was skipped.
\<close>

theorem confirmation_gate:
  assumes B: "0 < BATCH_SIZE c"
    and ok: "\<forall>name text. writeFileSync w name text = Returned ()"
  shows "\<exists>its. batch_loop w c penv lm sec 0 1 = Some (its, None)
           \<and> int (length its) = (int (length lm) + BATCH_SIZE c - 1) div BATCH_SIZE c
           \<and> (\<forall>g<length its.
                 answer (its ! g) = toLowerCase (trim (typed w (g + 1)))
               \<and> ((\<exists>e \<in> set (effects (its ! g)). is_post e)
                    \<longleftrightarrow> (answer (its ! g) = ''s'' \<or> answer (its ! g) = ''sim''))
               \<and> (LogSkipped (g + 1) \<in> set (effects (its ! g))
                    \<longleftrightarrow> \<not> (answer (its ! g) = ''s'' \<or> answer (its ! g) = ''sim''))
               \<and> length (filter is_question (effects (its ! g))) = 1)"
proof -
  from batch_loop_full [OF B ok, of penv lm sec] obtain its where
    run: "batch_loop w c penv lm sec 0 1 = Some (its, None)"
    and len: "int (length its) = (int (length lm) + BATCH_SIZE c - 1) div BATCH_SIZE c"
    and nth: "\<forall>g<length its. its ! g = iteration_body w c penv lm sec (int g * BATCH_SIZE c) (Suc g)"
    by blast
  have "answer (its ! g) = toLowerCase (trim (typed w (g + 1)))
      \<and> ((\<exists>e \<in> set (effects (its ! g)). is_post e)
           \<longleftrightarrow> (answer (its ! g) = ''s'' \<or> answer (its ! g) = ''sim''))
      \<and> (LogSkipped (g + 1) \<in> set (effects (its ! g))
           \<longleftrightarrow> \<not> (answer (its ! g) = ''s'' \<or> answer (its ! g) = ''sim''))
      \<and> length (filter is_question (effects (its ! g))) = 1"
    if g: "g < length its" for g
  proof -
    let ?it = "iteration_body w c penv lm sec (int g * BATCH_SIZE c) (Suc g)"
    from nth g have it: "its ! g = ?it" by simp
    from ok have wr: "writeFileSync w (make_fileName (OUTPUT_DIR c) (Suc g))
        (make_batchXml (headerSection sec)
           (js_slice lm (int g * BATCH_SIZE c) (int g * BATCH_SIZE c + BATCH_SIZE c)) (footerSection sec))
        = Returned ()"
      by simp
    note eff = turn_effects [OF wr, of penv]
    have a: "answer ?it = toLowerCase (trim (typed w (g + 1)))"
      using turn_answer [OF wr, of penv] by simp
    have p: "(\<exists>e \<in> set (effects ?it). is_post e) \<longleftrightarrow> (answer ?it = ''s'' \<or> answer ?it = ''sim'')"
      by (subst eff) (simp split: attempt.splits)
    have s: "LogSkipped (g + 1) \<in> set (effects ?it) \<longleftrightarrow> \<not> (answer ?it = ''s'' \<or> answer ?it = ''sim'')"
      by (subst eff) (simp split: attempt.splits)
    have q: "length (filter is_question (effects ?it)) = 1"
      by (subst eff) (simp split: attempt.splits)
    from a p s q show ?thesis
      unfolding it by blast
  qed
  with run len show ?thesis
    by blast
qed

theorem confirmation_gate_witness:
  "0 < BATCH_SIZE demo_constants
   \<and> (\<forall>name text. writeFileSync demo_world name text = Returned ())
   \<and> answer (demo_turns ! 0) = ''sim''
   \<and> (\<exists>e \<in> set (effects (demo_turns ! 0)). is_post e)
   \<and> answer (demo_turns ! 1) = ''n''
   \<and> LogSkipped 2 \<in> set (effects (demo_turns ! 1))
   \<and> \<not> (\<exists>e \<in> set (effects (demo_turns ! 1)). is_post e)"
proof -
  from confirmation_gate [OF demo_ok, of demo_penv demo_matches demo_sections] demo_run
  have all: "\<forall>g<length demo_turns.
       answer (demo_turns ! g) = toLowerCase (trim (typed demo_world (g + 1)))
     \<and> ((\<exists>e \<in> set (effects (demo_turns ! g)). is_post e)
          \<longleftrightarrow> (answer (demo_turns ! g) = ''s'' \<or> answer (demo_turns ! g) = ''sim''))
     \<and> (LogSkipped (g + 1) \<in> set (effects (demo_turns ! g))
          \<longleftrightarrow> \<not> (answer (demo_turns ! g) = ''s'' \<or> answer (demo_turns ! g) = ''sim''))
     \<and> length (filter is_question (effects (demo_turns ! g))) = 1"
    by auto
  have len: "0 < length demo_turns" "1 < length demo_turns"
    by (simp_all add: demo_turns_def)
  from all len(1) have a0: "answer (demo_turns ! 0) = ''sim''"
    by (simp only: demo_answers)
  from all len(2) have a1: "answer (demo_turns ! 1) = ''n''"
    by (simp only: demo_answers)
  from all len(1) a0 have p0: "\<exists>e \<in> set (effects (demo_turns ! 0)). is_post e"
    by blast
  from all len(2) have
    "(\<exists>e \<in> set (effects (demo_turns ! 1)). is_post e)
       \<longleftrightarrow> (answer (demo_turns ! 1) = ''s'' \<or> answer (demo_turns ! 1) = ''sim'')"
    "LogSkipped (1 + 1) \<in> set (effects (demo_turns ! 1))
       \<longleftrightarrow> \<not> (answer (demo_turns ! 1) = ''s'' \<or> answer (demo_turns ! 1) = ''sim'')"
    by blast+
  then have p1: "\<not> (\<exists>e \<in> set (effects (demo_turns ! 1)). is_post e)"
    and s1: "LogSkipped 2 \<in> set (effects (demo_turns ! 1))"
    unfolding a1 one_add_one by simp_all
  from demo_ok a0 p0 a1 s1 p1 show ?thesis
    by blast
qed

subsection \<open>A submission that fails\<close>

text \<open>
  C8. With a positive batch size and every write succeeding, the loop ends without an
  exception after all of its \<open>ceil(N/B)\<close> turns, however the submissions end. Every turn
  writes its file and asks the operator, and posts at most once. When the operator
  accepted and the submission fails with some detail, the turn posted exactly once and
  its last action is the report of that detail.
\<close>

theorem transmission_failure_isolated:
  assumes B: "0 < BATCH_SIZE c"
    and ok: "\<forall>name text. writeFileSync w name text = Returned ()"
  shows "\<exists>its. batch_loop w c penv lm sec 0 1 = Some (its, None)
           \<and> int (length its) = (int (length lm) + BATCH_SIZE c - 1) div BATCH_SIZE c
           \<and> (\<forall>g<length its.
                 (\<exists>rest. effects (its ! g) =
                    WriteFile (fileName (its ! g)) (batchXml (its ! g)) #
                    LogSaved (g + 1) (fileName (its ! g)) (batchCount (its ! g)) (startIdx (its ! g)) (endIdx (its ! g)) #
                    Question (g + 1) (batchCount (its ! g)) (startIdx (its ! g)) (endIdx (its ! g)) (API_URL c) #
                    rest)
               \<and> length (filter is_post (effects (its ! g))) \<le> 1
               \<and> (\<forall>detail. (answer (its ! g) = ''s'' \<or> answer (its ! g) = ''sim'')
                             \<and> posted w (g + 1) = Threw detail \<longrightarrow>
                     length (filter is_post (effects (its ! g))) = 1
                   \<and> last (effects (its ! g)) = ErrSend (g + 1) detail))"
proof -
  from batch_loop_full [OF B ok, of penv lm sec] obtain its where
    run: "batch_loop w c penv lm sec 0 1 = Some (its, None)"
    and len: "int (length its) = (int (length lm) + BATCH_SIZE c - 1) div BATCH_SIZE c"
    and nth: "\<forall>g<length its. its ! g = iteration_body w c penv lm sec (int g * BATCH_SIZE c) (Suc g)"
    by blast
  have "(\<exists>rest. effects (its ! g) =
            WriteFile (fileName (its ! g)) (batchXml (its ! g)) #
            LogSaved (g + 1) (fileName (its ! g)) (batchCount (its ! g)) (startIdx (its ! g)) (endIdx (its ! g)) #
            Question (g + 1) (batchCount (its ! g)) (startIdx (its ! g)) (endIdx (its ! g)) (API_URL c) #
            rest)
       \<and> length (filter is_post (effects (its ! g))) \<le> 1
       \<and> (\<forall>detail. (answer (its ! g) = ''s'' \<or> answer (its ! g) = ''sim'')
                     \<and> posted w (g + 1) = Threw detail \<longrightarrow>
             length (filter is_post (effects (its ! g))) = 1
           \<and> last (effects (its ! g)) = ErrSend (g + 1) detail)"
    if g: "g < length its" for g
  proof -
    let ?it = "iteration_body w c penv lm sec (int g * BATCH_SIZE c) (Suc g)"
    from nth g have it: "its ! g = ?it" by simp
    from ok have wr: "writeFileSync w (make_fileName (OUTPUT_DIR c) (Suc g))
        (make_batchXml (headerSection sec)
           (js_slice lm (int g * BATCH_SIZE c) (int g * BATCH_SIZE c + BATCH_SIZE c)) (footerSection sec))
        = Returned ()"
      by simp
    note eff = turn_effects [OF wr, of penv]
    have a: "\<exists>rest. effects ?it =
            WriteFile (fileName ?it) (batchXml ?it) #
            LogSaved (g + 1) (fileName ?it) (batchCount ?it) (startIdx ?it) (endIdx ?it) #
            Question (g + 1) (batchCount ?it) (startIdx ?it) (endIdx ?it) (API_URL c) #
            rest"
      by (subst eff) simp
    have b: "length (filter is_post (effects ?it)) \<le> 1"
      by (subst eff) (simp split: attempt.splits)
    have c: "length (filter is_post (effects ?it)) = 1 \<and> last (effects ?it) = ErrSend (g + 1) detail"
      if "answer ?it = ''s'' \<or> answer ?it = ''sim''" "posted w (g + 1) = Threw detail" for detail
      using that by (subst (1 2) eff) auto
    from a b c show ?thesis
      unfolding it by blast
  qed
  with run len show ?thesis
    by blast
qed

theorem transmission_failure_isolated_witness:
  "0 < BATCH_SIZE demo_constants
   \<and> (\<forall>name text. writeFileSync demo_world name text = Returned ())
   \<and> (answer (demo_turns ! 0) = ''s'' \<or> answer (demo_turns ! 0) = ''sim'')
   \<and> posted demo_world (0 + 1) = Threw ''ECONNREFUSED''
   \<and> length (filter is_post (effects (demo_turns ! 0))) = 1
   \<and> last (effects (demo_turns ! 0)) = ErrSend 1 ''ECONNREFUSED''
   \<and> batch_loop demo_world demo_constants demo_penv demo_matches demo_sections 0 1 = Some (demo_turns, None)
   \<and> (\<exists>rest. effects (demo_turns ! 1) =
         WriteFile (fileName (demo_turns ! 1)) (batchXml (demo_turns ! 1)) #
         LogSaved 2 (fileName (demo_turns ! 1)) (batchCount (demo_turns ! 1))
           (startIdx (demo_turns ! 1)) (endIdx (demo_turns ! 1)) #
         Question 2 (batchCount (demo_turns ! 1)) (startIdx (demo_turns ! 1)) (endIdx (demo_turns ! 1))
           (API_URL demo_constants) # rest)"
proof -
  from transmission_failure_isolated [OF demo_ok, of demo_penv demo_matches demo_sections] demo_run
  have all: "\<forall>g<length demo_turns.
       (\<exists>rest. effects (demo_turns ! g) =
          WriteFile (fileName (demo_turns ! g)) (batchXml (demo_turns ! g)) #
          LogSaved (g + 1) (fileName (demo_turns ! g)) (batchCount (demo_turns ! g))
            (startIdx (demo_turns ! g)) (endIdx (demo_turns ! g)) #
          Question (g + 1) (batchCount (demo_turns ! g)) (startIdx (demo_turns ! g)) (endIdx (demo_turns ! g))
            (API_URL demo_constants) # rest)
     \<and> length (filter is_post (effects (demo_turns ! g))) \<le> 1
     \<and> (\<forall>detail. (answer (demo_turns ! g) = ''s'' \<or> answer (demo_turns ! g) = ''sim'')
                   \<and> posted demo_world (g + 1) = Threw detail \<longrightarrow>
           length (filter is_post (effects (demo_turns ! g))) = 1
         \<and> last (effects (demo_turns ! g)) = ErrSend (g + 1) detail)"
    by auto
  have len: "0 < length demo_turns" "1 < length demo_turns"
    by (simp_all add: demo_turns_def)
  have yes: "answer (demo_turns ! 0) = ''s'' \<or> answer (demo_turns ! 0) = ''sim''"
    using turn_answer [of demo_world demo_constants 1 demo_sections demo_matches 0 "()" demo_penv]
    by (simp add: demo_turns_def demo_ok demo_answers [simplified])
  have down: "posted demo_world (0 + 1) = Threw ''ECONNREFUSED''"
    by (simp add: demo_world_def)
  from all len(1) yes down have
    "length (filter is_post (effects (demo_turns ! 0))) = 1
     \<and> last (effects (demo_turns ! 0)) = ErrSend (0 + 1) ''ECONNREFUSED''"
    by blast
  then have failed: "length (filter is_post (effects (demo_turns ! 0))) = 1"
    "last (effects (demo_turns ! 0)) = ErrSend 1 ''ECONNREFUSED''"
    by simp_all
  from all len(2) have "\<exists>rest. effects (demo_turns ! 1) =
         WriteFile (fileName (demo_turns ! 1)) (batchXml (demo_turns ! 1)) #
         LogSaved (1 + 1) (fileName (demo_turns ! 1)) (batchCount (demo_turns ! 1))
           (startIdx (demo_turns ! 1)) (endIdx (demo_turns ! 1)) #
         Question (1 + 1) (batchCount (demo_turns ! 1)) (startIdx (demo_turns ! 1)) (endIdx (demo_turns ! 1))
           (API_URL demo_constants) # rest"
    by blast
  then have next_turn: "\<exists>rest. effects (demo_turns ! 1) =
         WriteFile (fileName (demo_turns ! 1)) (batchXml (demo_turns ! 1)) #
         LogSaved 2 (fileName (demo_turns ! 1)) (batchCount (demo_turns ! 1))
           (startIdx (demo_turns ! 1)) (endIdx (demo_turns ! 1)) #
         Question 2 (batchCount (demo_turns ! 1)) (startIdx (demo_turns ! 1)) (endIdx (demo_turns ! 1))
           (API_URL demo_constants) # rest"
    unfolding one_add_one .
  from demo_ok yes down failed demo_run next_turn show ?thesis
    by blast
qed

subsection \<open>The TLS setting\<close>

lemma send_batch_tls:
  "e \<in> set (send_batch w c penv k xml) \<Longrightarrow> tls_of e = Some t \<Longrightarrow> t = tls_setting penv"
  by (auto simp: send_batch_def split: attempt.splits)

lemma turn_tls:
  "e \<in> set (effects (iteration_body w c penv lm sec i k)) \<Longrightarrow> tls_of e = Some t \<Longrightarrow>
     t = tls_setting penv"
  by (auto simp: iteration_body_def Let_def split: attempt.splits if_splits dest: send_batch_tls)

lemma loop_tls:
  assumes run: "batch_loop w c penv lm sec i k = Some (its, thr)"
    and e: "e \<in> set (concat (map effects its))"
    and t: "tls_of e = Some t"
  shows "t = tls_setting penv"
proof -
  from e obtain it where it: "it \<in> set its" and eit: "e \<in> set (effects it)"
    by auto
  from it have "it \<in> set (map (\<lambda>g. iteration_body w c penv lm sec (i + int g * BATCH_SIZE c) (k + g))
      [0..<length its])"
    using batch_loop_turns [OF run] by simp
  then obtain g where "it = iteration_body w c penv lm sec (i + int g * BATCH_SIZE c) (k + g)"
    by auto
  with eit t show ?thesis
    by (auto dest: turn_tls)
qed

lemma run_batches_tls:
  assumes run: "run_batches w c penv xmlText first others = Some tr"
    and e: "e \<in> set tr"
    and t: "tls_of e = Some t"
  shows "t = tls_setting penv"
proof (cases "prepare_dir w c")
  case (Pair evs failure)
  have evs: "evs = [] \<or> evs = [Mkdir (OUTPUT_DIR c)]"
    using Pair by (auto simp: prepare_dir_def split: if_splits attempt.splits)
  let ?lm = "first # others"
  let ?sec = "wrapper_sections xmlText first (last ?lm)"
  show ?thesis
  proof (cases failure)
    case (Some err)
    with run Pair have "tr = [LogFound (length ?lm)] @ (if fallback ?sec then [WarnFallback] else []) @
        evs @ [ErrFatal err]"
      by (simp add: run_batches_def Let_def)
    with e t evs show ?thesis
      by (auto split: if_splits)
  next
    case None
    with run Pair obtain its thr where
      loop: "batch_loop w c penv ?lm ?sec 0 1 = Some (its, thr)"
      and tr: "tr = [LogFound (length ?lm)] @ (if fallback ?sec then [WarnFallback] else []) @ evs @
          [CreateInterface] @ concat (map effects its) @
          (case thr of Some e \<Rightarrow> [ErrFatal e] | None \<Rightarrow> [CloseInterface, LogFinished])"
      by (auto simp: run_batches_def Let_def split: Option.bind_splits)
    from e tr have "e \<in> set (concat (map effects its)) \<or> tls_of e = None"
      using evs by (auto split: if_splits option.splits)
    with t have "e \<in> set (concat (map effects its))"
      by auto
    with loop show ?thesis
      using t by (rule loop_tls)
  qed
qed

lemma main_tls:
  assumes run: "main w c penv = Some tr"
    and e: "e \<in> set tr"
    and t: "tls_of e = Some t"
  shows "t = tls_setting penv"
proof (cases "fetchXmlText w penv (XML_URL c)")
  case (Pair evs r)
  from fetch_events [OF Pair] have evs: "\<forall>e \<in> set evs. \<forall>t. tls_of e = Some t \<longrightarrow> t = tls_setting penv"
    by auto
  show ?thesis
  proof (cases "\<exists>xmlText first others. r = Returned (Str xmlText) \<and> xmlText \<noteq> [] \<and>
      match_all listingRegex xmlText = first # others")
    case True
    then obtain xmlText first others where r: "r = Returned (Str xmlText)" "xmlText \<noteq> []"
      "match_all listingRegex xmlText = first # others"
      by blast
    with run Pair obtain rest where rest: "run_batches w c penv xmlText first others = Some rest"
      and tr: "tr = LogFetching (XML_URL c) # evs @ rest"
      by (auto simp: main_def)
    from e tr have "e = LogFetching (XML_URL c) \<or> e \<in> set evs \<or> e \<in> set rest"
      by auto
    with t evs rest show ?thesis
      by (auto dest: run_batches_tls)
  next
    case False
    with run Pair have "\<exists>tail. tr = LogFetching (XML_URL c) # evs @ tail \<and> (\<forall>e \<in> set tail. tls_of e = None)"
      by (auto simp: main_def split: attempt.splits js_value.splits if_splits list.splits)
    with e t evs show ?thesis
      by auto
  qed
qed

lemma main_total:
  assumes B: "0 < BATCH_SIZE c"
  shows "\<exists>tr. main w c penv = Some tr"
proof -
  have "\<exists>tr. run_batches w c penv xmlText first others = Some tr" for xmlText first others
  proof (cases "prepare_dir w c")
    case (Pair evs failure)
    from batch_loop_total [OF B] obtain its thr where
      "batch_loop w c penv (first # others)
         (wrapper_sections xmlText first (last (first # others))) 0 1 = Some (its, thr)"
      by blast
    with Pair show ?thesis
      by (cases failure) (simp_all add: run_batches_def Let_def)
  qed
  then show ?thesis
    by (auto simp: main_def split: prod.splits attempt.splits js_value.splits list.splits)
qed

lemma remote_run:
  "script remote_world =
     Some [LogFetching (Some ''feed.xml''), LogDownloading (Some ''feed.xml''),
           AxiosGet (Some ''feed.xml'') (Some ''0''), ErrFatal ''ENOTFOUND'']"
  by code_simp

lemma demo_script_run:
  "script demo_world =
     Some [LogFetching (Some ''feed.xml''), LogFound 3, Mkdir ''/work/lotes'', CreateInterface,
           WriteFile ''/work/lotes/lote_001.xml''
             (''<Listings ver=1>'' @ [newline] @ ''<Listing>A</Listing>'' @ [newline] @
              ''<Listing>B</Listing>'' @ [newline] @ ''<Listing>C</Listing>'' @ [newline] @ ''</Listings>''),
           LogSaved 1 ''/work/lotes/lote_001.xml'' 3 1 3,
           Question 1 3 1 3 (Some ''https://api.example/import''),
           LogSending 1,
           AxiosPost (Some ''https://api.example/import'')
             \<lparr>xmlData = ''<Listings ver=1>'' @ [newline] @ ''<Listing>A</Listing>'' @ [newline] @
                ''<Listing>B</Listing>'' @ [newline] @ ''<Listing>C</Listing>'' @ [newline] @ ''</Listings>'',
              batchSize = None\<rparr>
             [(''Content-Type'', ''application/json'')] (Some ''0''),
           ErrSend 1 ''ECONNREFUSED'', CloseInterface, LogFinished]"
  by code_simp

text \<open>
  C10. The script sets \<open>NODE_TLS_REJECT_UNAUTHORIZED\<close> to \<open>0\<close> on line 30, before \<open>main\<close>
  starts, and nothing assigns the variable afterwards. The script always ends, and every
  network call of the run, the download of the feed and each submission of a batch, is
  made while the variable is \<open>0\<close>, the value under which Node.js does not verify the
  certificate of the peer.
\<close>

theorem tls_verification_off_for_every_call:
  "\<exists>tr. script w = Some tr \<and> (\<forall>e \<in> set tr. \<forall>t. tls_of e = Some t \<longrightarrow> t = Some ''0'')"
proof -
  let ?penv = "(env w)(''NODE_TLS_REJECT_UNAUTHORIZED'' \<mapsto> ''0'')"
  have "0 < BATCH_SIZE (load_constants w)"
    by (simp add: load_constants_def BATCH_SIZE_init_const)
  then obtain tr where run: "main w (load_constants w) ?penv = Some tr"
    using main_total by blast
  have "tls_setting ?penv = Some ''0''"
    by (simp add: tls_setting_def)
  with run have "\<forall>e \<in> set tr. \<forall>t. tls_of e = Some t \<longrightarrow> t = Some ''0''"
    by (auto dest: main_tls)
  with run show ?thesis
    by (simp add: script_def Let_def)
qed

theorem tls_verification_off_for_every_call_witness:
  "(\<exists>tr. script remote_world = Some tr
         \<and> AxiosGet (Some ''feed.xml'') (Some ''0'') \<in> set tr
         \<and> AxiosGet (Some ''feed.xml'') None \<notin> set tr)
   \<and> (\<exists>tr. script demo_world = Some tr
         \<and> length (filter is_post tr) = 1
         \<and> map tls_of (filter is_post tr) = [Some (Some ''0'')])"
proof -
  from tls_verification_off_for_every_call [of remote_world] obtain tr where
    run: "script remote_world = Some tr"
    and all: "\<forall>e \<in> set tr. \<forall>t. tls_of e = Some t \<longrightarrow> t = Some ''0''"
    by blast
  from run have tr: "tr = [LogFetching (Some ''feed.xml''), LogDownloading (Some ''feed.xml''),
      AxiosGet (Some ''feed.xml'') (Some ''0''), ErrFatal ''ENOTFOUND'']"
    by (simp add: remote_run)
  then have here: "AxiosGet (Some ''feed.xml'') (Some ''0'') \<in> set tr"
    by simp
  have "AxiosGet (Some ''feed.xml'') None \<notin> set tr"
  proof
    assume "AxiosGet (Some ''feed.xml'') None \<in> set tr"
    with all have "\<forall>t. tls_of (AxiosGet (Some ''feed.xml'') None) = Some t \<longrightarrow> t = Some ''0''"
      by blast
    then show False
      by simp
  qed
  with run here have first: "\<exists>tr. script remote_world = Some tr
         \<and> AxiosGet (Some ''feed.xml'') (Some ''0'') \<in> set tr
         \<and> AxiosGet (Some ''feed.xml'') None \<notin> set tr"
    by blast
  have second: "\<exists>tr. script demo_world = Some tr
         \<and> length (filter is_post tr) = 1
         \<and> map tls_of (filter is_post tr) = [Some (Some ''0'')]"
    by (simp add: demo_script_run)
  from first second show ?thesis
    by blast
qed

subsection \<open>A configured batch size of zero\<close>












end
